theory Spec2Isabelle
  imports Complex_Main "HOL-Library.Word"
begin

section \<open>pythonping: the session executor and the response aggregator\<close>

text \<open>
  A shallow embedding of \<^verbatim>\<open>pythonping/executor.py\<close> and of the function
  \<^verbatim>\<open>ping\<close> of \<^verbatim>\<open>pythonping/__init__.py\<close>.

  Conventions of the embedding.
  \<^item> Python numbers (durations, clock readings, statistics) are rationals. Python's
    \<^verbatim>\<open>float\<close> is IEEE 754 binary64: every arithmetic result is rounded. The
    aggregator, whose statistics are chains of such operations, takes the rounding
    function as its first argument: the identity is exact arithmetic, \<open>binary64\<close>
    (below) is round-to-nearest-even with a 53 bit significand. The executor takes it too,
    for the elapsed time of a reply and for the deadline test. Comparisons are exact, as
    they are on floating-point numbers.
  \<^item> \<^verbatim>\<open>bytes\<close> are lists of 8 bit words.
  \<^item> An exception is a value of type \<open>error\<close>; a function that can raise returns
    \<open>error + 'a\<close>, \<open>Inl\<close> carrying the exception.
  \<^item> The modules \<^verbatim>\<open>icmp\<close>, \<^verbatim>\<open>network\<close> and
    \<^verbatim>\<open>payload_provider\<close> are collaborators of the executor: what they return
    is an input of the model (a script of the results of successive calls).
  \<^item> Verbose printing is output only and is left out.
\<close>

subsection \<open>Data\<close>

type_synonym bytes = "8 word list"

datatype error = ZeroDivisionError | ValueError | OSError | FormatError

text \<open>The threshold of \<^verbatim>\<open>ResponseList.success\<close>.\<close>

datatype SuccessOn = One | Most | All

text \<open>
  The attributes of an \<^verbatim>\<open>icmp.ICMP\<close> object that the executor reads:
  \<^verbatim>\<open>message_type\<close>, \<^verbatim>\<open>message_code\<close>, \<^verbatim>\<open>id\<close> and
  \<^verbatim>\<open>payload\<close>.
\<close>

record ICMP =
  message_type :: nat
  message_code :: nat
  icmp_id :: nat
  payload :: bytes

text \<open>
  Modelled from the spec: the constant \<^verbatim>\<open>icmp.Types.EchoRequest.type_id\<close>; the
  module \<^verbatim>\<open>icmp\<close> is not among the sources. The spec gives Echo Request as
  type 8, code 0.
\<close>

definition EchoRequest_type_id :: nat where
  "EchoRequest_type_id = 8"

record Message =
  target :: string
  packet :: ICMP
  source :: string

record Response =
  message :: "Message option"
  time_elapsed :: rat

definition unreachable_messages :: "string list" where
  "unreachable_messages =
    [''Network Unreachable'',
     ''Host Unreachable'',
     ''Protocol Unreachable'',
     ''Port Unreachable'',
     ''Fragmentation Required'',
     ''Source Route Failed'',
     ''Network Unknown'',
     ''Host Unknown'',
     ''Source Host Isolated'',
     ''Communication with Destination Network is Administratively Prohibited'',
     ''Communication with Destination Host is Administratively Prohibited'',
     ''Network Unreachable for ToS'',
     ''Host Unreachable for ToS'',
     ''Communication Administratively Prohibited'',
     ''Host Precedence Violation'',
     ''Precedence Cutoff in Effect'']"

text \<open>\<^verbatim>\<open>Response.error_message\<close>: \<open>None\<close> is Python's \<^verbatim>\<open>None\<close>.\<close>

definition error_message :: "Response \<Rightarrow> string option" where
  "error_message r =
    (case message r of
       None \<Rightarrow> Some ''No response''
     | Some m \<Rightarrow>
         if message_type (packet m) = 0 \<and> message_code (packet m) = 0 then None
         else if message_type (packet m) = 3 then
           (if message_code (packet m) < length unreachable_messages
            then Some (unreachable_messages ! message_code (packet m))
            else Some ''Unreachable'')
         else Some ''Network Error'')"

text \<open>\<^verbatim>\<open>Response.success\<close>.\<close>

definition success :: "Response \<Rightarrow> bool" where
  "success r = (error_message r = None)"

subsection \<open>The response aggregator\<close>

text \<open>
  \<^verbatim>\<open>ResponseList\<close>: the list \<^verbatim>\<open>_responses\<close> and the running statistics.
  \<^verbatim>\<open>start_time\<close> and \<^verbatim>\<open>stop_time\<close> are attributes that only
  \<^verbatim>\<open>Communicator.run\<close> sets; \<open>None\<close> is the attribute not set yet.
\<close>

record ResponseList =
  responses :: "Response list"
  rtt_avg :: rat
  rtt_min :: rat
  rtt_max :: rat
  packets_lost :: rat
  start_time :: "rat option"
  stop_time :: "rat option"

text \<open>\<^verbatim>\<open>ResponseList.clear\<close> empties the list and leaves the statistics.\<close>

definition clear :: "ResponseList \<Rightarrow> ResponseList" where
  "clear rl = rl\<lparr>responses := []\<rparr>"

text \<open>
  \<^verbatim>\<open>ResponseList.append\<close>. \<open>rnd\<close> rounds the result of each arithmetic
  operation. In \<^verbatim>\<open>(0 if value.success else 1 - self.packets_lost) / len(self)\<close>
  the conditional expression binds weaker than the subtraction: its else branch is
  \<^verbatim>\<open>1 - self.packets_lost\<close>.
\<close>

definition append_response :: "(rat \<Rightarrow> rat) \<Rightarrow> ResponseList \<Rightarrow> Response \<Rightarrow> ResponseList" where
  "append_response rnd rl v =
    (let rs = responses rl @ [v];
         n = length rs;
         e = time_elapsed v;
         rl1 = rl\<lparr>responses := rs\<rparr>;
         rl2 =
           (if n = 1 then rl1\<lparr>rtt_avg := e, rtt_max := e, rtt_min := e\<rparr>
            else
              let ra = rl1\<lparr>rtt_avg :=
                         rnd (rnd (rnd (rtt_avg rl1 * of_nat (n - 1)) + e) / of_nat n)\<rparr>;
                  rb = (if e > rtt_max ra then ra\<lparr>rtt_max := e\<rparr> else ra)
              in (if e < rtt_min rb then rb\<lparr>rtt_min := e\<rparr> else rb))
     in rl2\<lparr>packets_lost :=
          rnd (packets_lost rl2
               + rnd ((if success v then 0 else rnd (1 - packets_lost rl2)) / of_nat n))\<rparr>)"

text \<open>
  \<^verbatim>\<open>ResponseList.__init__\<close>: empty list, statistics zero, then the initial set
  appended in order.
\<close>

definition empty_ResponseList :: ResponseList where
  "empty_ResponseList =
    \<lparr>responses = [], rtt_avg = 0, rtt_min = 0, rtt_max = 0, packets_lost = 0,
     start_time = None, stop_time = None\<rparr>"

definition ResponseList_init :: "(rat \<Rightarrow> rat) \<Rightarrow> Response list \<Rightarrow> ResponseList" where
  "ResponseList_init rnd initial_set = foldl (append_response rnd) empty_ResponseList initial_set"

text \<open>
  \<^verbatim>\<open>ResponseList.success\<close>. The division of \<^verbatim>\<open>Most\<close> raises
  \<^verbatim>\<open>ZeroDivisionError\<close> on an empty list.
\<close>

definition success_list :: "ResponseList \<Rightarrow> bool list" where
  "success_list rl = map success (responses rl)"

definition ResponseList_success :: "ResponseList \<Rightarrow> SuccessOn \<Rightarrow> error + bool" where
  "ResponseList_success rl option =
    (case option of
       One \<Rightarrow> Inr (True \<in> set (success_list rl))
     | Most \<Rightarrow>
         if length (success_list rl) = 0 then Inl ZeroDivisionError
         else Inr ((of_nat (count_list (success_list rl) True) :: rat)
                     / of_nat (length (success_list rl)) > 1 / 2)
     | All \<Rightarrow> Inr (False \<notin> set (success_list rl)))"

subsection \<open>Rounding of floating-point results\<close>

text \<open>
  \<open>exact\<close> is no rounding: arithmetic on the rationals as it is. \<open>binary64\<close> is
  IEEE 754 binary64, the format of Python's \<^verbatim>\<open>float\<close>, on rationals:
  the result of an operation is the exact result rounded to the nearest number with a
  53 bit significand, ties to the even significand. \<open>ilog2 x\<close> is the exponent of
  the binade of a positive \<open>x\<close>; below \<open>2 ^ - 1022\<close> the spacing stays
  \<open>2 ^ - 1074\<close> (subnormal numbers). Overflow to infinity is not modelled: the
  function is meant for results of magnitude below \<open>2 ^ 1024\<close>.
\<close>

definition exact :: "rat \<Rightarrow> rat" where
  "exact x = x"

definition pow2 :: "int \<Rightarrow> rat" where
  "pow2 e = (if e \<ge> 0 then 2 ^ nat e else 1 / 2 ^ nat (- e))"

function blen :: "int \<Rightarrow> int" where
  "blen n = (if n \<le> 0 then 0 else blen (n div 2) + 1)"
  by pat_completeness auto
termination
  by (relation "measure nat") auto

declare blen.simps [simp del]

definition ilog2 :: "rat \<Rightarrow> int" where
  "ilog2 x =
    (let (p, q) = quotient_of x;
         e0 = blen p - blen q
     in if pow2 e0 \<le> x then e0 else e0 - 1)"

definition round_half_even :: "rat \<Rightarrow> int" where
  "round_half_even q =
    (let f = \<lfloor>q\<rfloor>; d = q - of_int f
     in if d < 1 / 2 then f else if d > 1 / 2 then f + 1 else if even f then f else f + 1)"

definition binary64 :: "rat \<Rightarrow> rat" where
  "binary64 x =
    (if x = 0 then 0
     else let e = max (ilog2 \<bar>x\<bar> - 52) (- 1074)
          in of_int (round_half_even (x / pow2 e)) * pow2 e)"

text \<open>
  Attempt results used as concrete inputs: a timed-out attempt (no message) and an
  Echo Reply (type 0, code 0, identifier 7, payload \<^verbatim>\<open>b"ab"\<close>), each with a
  given elapsed time.
\<close>

definition timed_out :: "rat \<Rightarrow> Response" where
  "timed_out t = \<lparr>message = None, time_elapsed = t\<rparr>"

definition echo_reply :: "rat \<Rightarrow> Response" where
  "echo_reply t =
    \<lparr>message = Some \<lparr>target = [], packet = \<lparr>message_type = 0, message_code = 0,
        icmp_id = 7, payload = [97, 98]\<rparr>, source = ''192.0.2.1''\<rparr>,
     time_elapsed = t\<rparr>"

subsection \<open>Sequence numbers\<close>

text \<open>\<^verbatim>\<open>Communicator.increase_seq\<close>, on Python's unbounded integers.\<close>

definition increase_seq :: "int \<Rightarrow> int" where
  "increase_seq sequence_number =
    (let sequence_number = sequence_number + 1
     in if sequence_number > 0xFFFF then 1 else sequence_number)"

subsection \<open>Listening for the reply\<close>

text \<open>
  \<^verbatim>\<open>self.socket.receive(time_left)\<close> belongs to the module \<^verbatim>\<open>network\<close>.
  One call either returns \<^verbatim>\<open>(raw_packet, source_socket, time_left)\<close> or raises;
  of \<^verbatim>\<open>source_socket\<close> the executor reads the host, \<^verbatim>\<open>source_socket[0]\<close>.
  The results of the successive calls of one attempt are a list, in call order.
\<close>

datatype receive_result = Received bytes string rat | ReceiveRaises error

text \<open>
  \<^verbatim>\<open>Communicator.listen_for\<close>. \<open>unpack\<close> stands for
  \<^verbatim>\<open>icmp.ICMP.unpack\<close>, which parses the raw packet or raises; \<open>rnd\<close>
  rounds the subtraction \<^verbatim>\<open>timeout - time_left\<close>. The loop runs
  while \<^verbatim>\<open>time_left > 0\<close>; the result \<open>None\<close> is the loop still waiting for
  a call of \<^verbatim>\<open>receive\<close> that the list does not hold.
\<close>

fun listen_loop ::
  "(bytes \<Rightarrow> error + ICMP) \<Rightarrow> (rat \<Rightarrow> rat) \<Rightarrow> nat \<Rightarrow> rat \<Rightarrow> bytes option \<Rightarrow> rat \<Rightarrow> receive_result list
    \<Rightarrow> (error + Response) option" where
  "listen_loop unpack rnd packet_id timeout payload_pattern time_left [] =
    (if time_left > 0 then None
     else Some (Inr \<lparr>message = None, time_elapsed = timeout\<rparr>))"
| "listen_loop unpack rnd packet_id timeout payload_pattern time_left (r # rs) =
    (if time_left > 0 then
       (case r of
          ReceiveRaises e \<Rightarrow> Some (Inl e)
        | Received raw_packet source_host time_left' \<Rightarrow>
            if raw_packet \<noteq> [] then
              (case unpack raw_packet of
                 Inl e \<Rightarrow> Some (Inl e)
               | Inr response \<Rightarrow>
                   if icmp_id response = packet_id
                      \<and> message_type response \<noteq> EchoRequest_type_id
                   then
                     (let payload_matched =
                            (case payload_pattern of
                               None \<Rightarrow> True
                             | Some pattern \<Rightarrow> pattern = payload response)
                      in if payload_matched
                         then Some (Inr \<lparr>message = Some \<lparr>target = [], packet = response,
                                                         source = source_host\<rparr>,
                                         time_elapsed = rnd (timeout - time_left')\<rparr>)
                         else listen_loop unpack rnd packet_id timeout payload_pattern time_left' rs)
                   else listen_loop unpack rnd packet_id timeout payload_pattern time_left' rs)
            else listen_loop unpack rnd packet_id timeout payload_pattern time_left' rs)
     else Some (Inr \<lparr>message = None, time_elapsed = timeout\<rparr>))"

declare listen_loop.simps(2) [simp del]

definition listen_for ::
  "(bytes \<Rightarrow> error + ICMP) \<Rightarrow> (rat \<Rightarrow> rat) \<Rightarrow> nat \<Rightarrow> rat \<Rightarrow> bytes option \<Rightarrow> receive_result list
    \<Rightarrow> (error + Response) option" where
  "listen_for unpack rnd packet_id timeout payload_pattern rs =
    listen_loop unpack rnd packet_id timeout payload_pattern timeout rs"

text \<open>
  The matching rule in the words of the spec: (a) the parsed identifier equals the
  request's identifier; (b) the parsed message type is not Echo Request; (c) if payload
  matching is enabled, the parsed payload equals the bytes that were sent. It is compared
  with \<open>listen_loop\<close> below.
\<close>

definition matching_rule :: "nat \<Rightarrow> bytes option \<Rightarrow> ICMP \<Rightarrow> bool" where
  "matching_rule identifier sent p =
    (icmp_id p = identifier
     \<and> message_type p \<noteq> EchoRequest_type_id
     \<and> (case sent of None \<Rightarrow> True | Some b \<Rightarrow> payload p = b))"

text \<open>
  A result of \<^verbatim>\<open>receive\<close> that the loop passes over: no packet, or a packet
  that parses and does not satisfy the matching rule. \<open>budget\<close> is the remaining
  time that the call returned.
\<close>

definition passed_over :: "(bytes \<Rightarrow> error + ICMP) \<Rightarrow> nat \<Rightarrow> bytes option \<Rightarrow> receive_result \<Rightarrow> bool" where
  "passed_over unpack identifier sent r =
    (case r of
       ReceiveRaises e \<Rightarrow> False
     | Received raw_packet source_host time_left \<Rightarrow>
         raw_packet = []
         \<or> (case unpack raw_packet of
               Inl e \<Rightarrow> False
             | Inr p \<Rightarrow> \<not> matching_rule identifier sent p))"

definition budget :: "receive_result \<Rightarrow> rat" where
  "budget r = (case r of ReceiveRaises e \<Rightarrow> 0 | Received raw_packet source_host time_left \<Rightarrow> time_left)"

text \<open>
  Modelled from the spec: \<^verbatim>\<open>icmp.ICMP.unpack\<close>, which is not among the sources.
  The spec's decode fails on a buffer shorter than the 8 byte header and reads type (offset
  0), code (offset 1), identifier (offset 4, two bytes, big-endian) and the payload (from
  offset 8). It serves as the parser of the concrete inputs below; the theorems hold for
  every parser.
\<close>

definition decode :: "bytes \<Rightarrow> error + ICMP" where
  "decode raw =
    (if length raw < 8 then Inl FormatError
     else Inr \<lparr>message_type = unat (raw ! 0), message_code = unat (raw ! 1),
               icmp_id = unat (raw ! 4) * 256 + unat (raw ! 5), payload = drop 8 raw\<rparr>)"

subsection \<open>The session\<close>

text \<open>
  The attributes of a \<^verbatim>\<open>Communicator\<close> that \<^verbatim>\<open>run\<close> reads.
  \<open>overall_timeout = None\<close> is the default \<^verbatim>\<open>float("inf")\<close>.
\<close>

record Communicator =
  timeout :: rat
  seed_id :: nat
  interval :: rat
  overall_timeout :: "rat option"

text \<open>
  \<^verbatim>\<open>Communicator.__init__\<close>: creating the \<^verbatim>\<open>network.Socket\<close> can raise
  (\<open>socket_raises\<close>); without a seed the identifier is
  \<^verbatim>\<open>os.getpid() & 0xFFFF\<close>.
\<close>

definition Communicator_init ::
  "error option \<Rightarrow> rat \<Rightarrow> nat option \<Rightarrow> nat \<Rightarrow> rat \<Rightarrow> rat option \<Rightarrow> error + Communicator" where
  "Communicator_init socket_raises timeout' seed pid interval' overall_timeout' =
    (case socket_raises of
       Some e \<Rightarrow> Inl e
     | None \<Rightarrow>
         Inr \<lparr>timeout = timeout',
              seed_id = (case seed of None \<Rightarrow> pid mod 65536 | Some s \<Rightarrow> s),
              interval = interval',
              overall_timeout = overall_timeout'\<rparr>)"

text \<open>
  What the outside does during one attempt: whether \<^verbatim>\<open>socket.send\<close> raises,
  what the calls of \<^verbatim>\<open>receive\<close> return, and the reading of
  \<^verbatim>\<open>time.time()\<close> after \<^verbatim>\<open>listen_for\<close> has returned.
\<close>

record attempt_io =
  send_raises :: "error option"
  receives :: "receive_result list"
  clock :: rat

text \<open>
  \<^verbatim>\<open>Communicator.send_ping\<close> builds the Echo Request, sends it and returns
  \<^verbatim>\<open>i.payload\<close>, the payload bytes. A request is recorded as identifier, sequence
  number and payload.
\<close>

type_synonym request = "nat \<times> int \<times> bytes"

definition send_ping :: "attempt_io \<Rightarrow> nat \<Rightarrow> int \<Rightarrow> bytes \<Rightarrow> error + bytes" where
  "send_ping io packet_id sequence_number payload' =
    (case send_raises io of Some e \<Rightarrow> Inl e | None \<Rightarrow> Inr payload')"

text \<open>
  The deadline test of \<^verbatim>\<open>run\<close>:
  \<^verbatim>\<open>self.overall_runtime + self.interval >= self.overall_timeout\<close>, the sum
  rounded.
\<close>

definition deadline_reached :: "(rat \<Rightarrow> rat) \<Rightarrow> Communicator \<Rightarrow> rat \<Rightarrow> bool" where
  "deadline_reached rnd c overall_runtime =
    (case overall_timeout c of
       None \<Rightarrow> False
     | Some t \<Rightarrow> rnd (overall_runtime + interval c) \<ge> t)"

text \<open>
  The loop of \<^verbatim>\<open>Communicator.run\<close> over the payloads of the provider, a
  finite list (a provider that never ends is not covered). \<open>i\<close> counts the attempts, \<open>sent\<close> are the requests sent so far. The result is \<open>None\<close>
  when an attempt is still listening, \<open>Some (Inl e)\<close> when an exception leaves
  \<^verbatim>\<open>run\<close>, and the requests sent and the response list when it returns.
  \<open>rnd\<close> rounds the statistics, the elapsed times and the subtraction
  \<^verbatim>\<open>self.stop_time - self.start_time\<close>. \<^verbatim>\<open>time.sleep\<close> raises
  \<^verbatim>\<open>ValueError\<close> for a negative interval.
\<close>

fun run_loop ::
  "(bytes \<Rightarrow> error + ICMP) \<Rightarrow> (rat \<Rightarrow> rat) \<Rightarrow> Communicator \<Rightarrow> bool \<Rightarrow> rat \<Rightarrow> (nat \<Rightarrow> attempt_io)
    \<Rightarrow> nat \<Rightarrow> int \<Rightarrow> request list \<Rightarrow> ResponseList \<Rightarrow> bytes list
    \<Rightarrow> (error + request list \<times> ResponseList) option" where
  "run_loop unpack rnd c match_payloads start env i seq sent rl [] = Some (Inr (sent, rl))"
| "run_loop unpack rnd c match_payloads start env i seq sent rl (payload' # provider) =
    (case send_ping (env i) (seed_id c) seq payload' of
       Inl e \<Rightarrow> Some (Inl e)
     | Inr payload_bytes_sent \<Rightarrow>
         (case listen_for unpack rnd (seed_id c) (timeout c)
                 (if \<not> match_payloads then None else Some payload_bytes_sent)
                 (receives (env i)) of
            None \<Rightarrow> None
          | Some (Inl e) \<Rightarrow> Some (Inl e)
          | Some (Inr response) \<Rightarrow>
              (let rl' = (append_response rnd rl response)\<lparr>stop_time := Some (clock (env i))\<rparr>;
                   sent' = sent @ [(seed_id c, seq, payload')];
                   overall_runtime = rnd (clock (env i) - start)
               in if deadline_reached rnd c overall_runtime then Some (Inr (sent', rl'))
                  else if interval c < 0 then Some (Inl ValueError)
                  else run_loop unpack rnd c match_payloads start env (Suc i) (increase_seq seq)
                         sent' rl' provider)))"

text \<open>
  \<^verbatim>\<open>Communicator.run\<close>: the responses are cleared, the sequence number starts at
  1, \<open>start\<close> is the reading of \<^verbatim>\<open>time.time()\<close> before the loop.
\<close>

definition run ::
  "(bytes \<Rightarrow> error + ICMP) \<Rightarrow> (rat \<Rightarrow> rat) \<Rightarrow> Communicator \<Rightarrow> ResponseList \<Rightarrow> bool \<Rightarrow> bytes list
    \<Rightarrow> rat \<Rightarrow> (nat \<Rightarrow> attempt_io) \<Rightarrow> (error + request list \<times> ResponseList) option" where
  "run unpack rnd c rl match_payloads provider start env =
    run_loop unpack rnd c match_payloads start env 0 1 []
      ((clear rl)\<lparr>start_time := Some start\<rparr>) provider"

subsection \<open>Session identifiers\<close>

text \<open>
  The loop of \<^verbatim>\<open>ping\<close> that picks the identifier. \<open>draws\<close> are the values
  that the successive calls \<^verbatim>\<open>randint(0x1, 0xFFFF)\<close> return; \<open>None\<close> is the
  loop still drawing. The result is the identifier and the list \<^verbatim>\<open>SEED_IDs\<close>
  with it appended.
\<close>

fun allocate :: "nat list \<Rightarrow> nat list \<Rightarrow> (nat \<times> nat list) option" where
  "allocate SEED_IDs [] = None"
| "allocate SEED_IDs (d # draws) =
    (if d \<notin> set SEED_IDs then Some (d, SEED_IDs @ [d]) else allocate SEED_IDs draws)"

text \<open>
  \<^verbatim>\<open>ping\<close>, from the choice of the identifier on; the provider of payloads, built
  by the module \<^verbatim>\<open>payload_provider\<close>, is an input. The result pairs what
  \<^verbatim>\<open>ping\<close> returns or raises with the list \<^verbatim>\<open>SEED_IDs\<close> it leaves.
  \<^verbatim>\<open>SEED_IDs.remove(seed_id)\<close> removes the first occurrence. The interval is the
  default of \<^verbatim>\<open>Communicator\<close>, one second.
\<close>

definition ping ::
  "(bytes \<Rightarrow> error + ICMP) \<Rightarrow> (rat \<Rightarrow> rat) \<Rightarrow> nat list \<Rightarrow> nat list \<Rightarrow> error option \<Rightarrow> rat
    \<Rightarrow> bytes list \<Rightarrow> bool \<Rightarrow> rat option \<Rightarrow> rat \<Rightarrow> (nat \<Rightarrow> attempt_io)
    \<Rightarrow> ((error + ResponseList) \<times> nat list) option" where
  "ping unpack rnd SEED_IDs draws socket_raises timeout' provider match overall_timeout' start env =
    (case allocate SEED_IDs draws of
       None \<Rightarrow> None
     | Some (seed, SEED_IDs') \<Rightarrow>
         (case Communicator_init socket_raises timeout' (Some seed) 0 1 overall_timeout' of
            Inl e \<Rightarrow> Some (Inl e, SEED_IDs')
          | Inr comm \<Rightarrow>
              (case run unpack rnd comm empty_ResponseList match provider start env of
                 None \<Rightarrow> None
               | Some (Inl e) \<Rightarrow> Some (Inl e, SEED_IDs')
               | Some (Inr (sent, rl)) \<Rightarrow> Some (Inr rl, remove1 seed SEED_IDs'))))"

subsection \<open>Sessions in several threads\<close>

text \<open>
  \<^verbatim>\<open>ping\<close> takes no lock: when several threads call it, the statements of the
  identifier loop interleave. A thread is at one of these places: before
  \<^verbatim>\<open>randint\<close> (line 72); holding a drawn value before the test
  \<^verbatim>\<open>seed_id not in SEED_IDs\<close> (line 73); past the test, before
  \<^verbatim>\<open>SEED_IDs.append\<close> (line 74); running its session (lines 77 to 83); and past
  \<^verbatim>\<open>SEED_IDs.remove\<close> (line 84). One step of one thread executes the statement it
  is at; \<open>d\<close> is what \<^verbatim>\<open>randint\<close> returns if that is the statement.
\<close>

datatype place = Drawing | Testing nat | Appending nat | Session nat | Returned

fun thread_step :: "nat \<Rightarrow> nat list \<times> place \<Rightarrow> nat list \<times> place" where
  "thread_step d (SEED_IDs, Drawing) = (SEED_IDs, Testing d)"
| "thread_step d (SEED_IDs, Testing s) =
    (if s \<notin> set SEED_IDs then (SEED_IDs, Appending s) else (SEED_IDs, Drawing))"
| "thread_step d (SEED_IDs, Appending s) = (SEED_IDs @ [s], Session s)"
| "thread_step d (SEED_IDs, Session s) = (remove1 s SEED_IDs, Returned)"
| "thread_step d (SEED_IDs, Returned) = (SEED_IDs, Returned)"

text \<open>
  A schedule lists which thread steps next, with the value a draw would return. The state
  is \<^verbatim>\<open>SEED_IDs\<close> and the place of every thread.
\<close>

fun interleave :: "(nat \<times> nat) list \<Rightarrow> nat list \<times> place list \<Rightarrow> nat list \<times> place list" where
  "interleave [] st = st"
| "interleave ((t, d) # schedule) (SEED_IDs, places) =
    (if t < length places
     then (let (SEED_IDs', p) = thread_step d (SEED_IDs, places ! t)
           in interleave schedule (SEED_IDs', places[t := p]))
     else interleave schedule (SEED_IDs, places))"

subsection \<open>Concrete inputs\<close>

text \<open>
  An Echo Reply with identifier 7, sequence number 1 and the payload \<^verbatim>\<open>b"ab"\<close>,
  as raw bytes; the same with identifier 8; an Echo Request (type 8) with identifier 7;
  and the reply with the last payload byte changed.
\<close>

definition reply_raw :: bytes where
  "reply_raw = [0, 0, 0, 0, 0, 7, 0, 1, 97, 98]"

definition other_id_raw :: bytes where
  "other_id_raw = [0, 0, 0, 0, 0, 8, 0, 1, 97, 98]"

definition request_raw :: bytes where
  "request_raw = [8, 0, 0, 0, 0, 7, 0, 1, 97, 98]"

definition altered_raw :: bytes where
  "altered_raw = [0, 0, 0, 0, 0, 7, 0, 1, 97, 99]"

text \<open>
  A session with a per-packet timeout of 2s, the interval of 1s and an overall timeout
  of 2.5s. In \<open>quick_reply\<close> every request is answered after 10ms (the call of
  \<^verbatim>\<open>receive\<close> leaves \<^verbatim>\<open>1.99\<close>) and the clock, started at 0, reads
  \<^verbatim>\<open>0.01\<close>, \<^verbatim>\<open>1.02\<close>, \<^verbatim>\<open>2.03\<close>, ... after the
  attempts, all binary64 numbers: each sleep takes one second. In \<open>send_fails\<close> the
  socket raises when the first request is sent.
\<close>

definition session_2500ms :: Communicator where
  "session_2500ms = \<lparr>timeout = 2, seed_id = 7, interval = 1, overall_timeout = Some (5 / 2)\<rparr>"

definition quick_reply :: "nat \<Rightarrow> attempt_io" where
  "quick_reply k =
    \<lparr>send_raises = None,
     receives = [Received reply_raw ''192.0.2.1'' (binary64 (199 / 100))],
     clock = binary64 (of_nat k * (101 / 100) + 1 / 100)\<rparr>"

definition send_fails :: "nat \<Rightarrow> attempt_io" where
  "send_fails k = \<lparr>send_raises = Some OSError, receives = [], clock = 0\<rparr>"

text \<open>What a finished \<^verbatim>\<open>run\<close> has sent; \<open>None\<close> if it did not return.\<close>

definition requests_sent :: "(error + request list \<times> ResponseList) option \<Rightarrow> request list option" where
  "requests_sent res = (case res of Some (Inr (sent, rl)) \<Rightarrow> Some sent | _ \<Rightarrow> None)"

section \<open>Properties\<close>

subsection \<open>Sequence numbers\<close>

text \<open>
  Claim C8. For every sequence number \<open>n\<close> in \<open>[1, 65535]\<close>,
  \<open>increase_seq n\<close> is \<open>n + 1\<close> when \<open>n < 65535\<close> and \<open>1\<close> when
  \<open>n = 65535\<close>: the number wraps to 1, never to 0.
\<close>

theorem increase_seq_wraps:
  "1 \<le> n \<Longrightarrow> n \<le> 65535 \<Longrightarrow> increase_seq n = (if n < 65535 then n + 1 else 1)"
  by (simp add: increase_seq_def Let_def)

theorem increase_seq_wraps_witness:
  "(1::int) \<le> 65535 \<and> (65535::int) \<le> 65535 \<and> increase_seq 65535 = 1
   \<and> (1::int) \<le> 7 \<and> (7::int) \<le> 65535 \<and> increase_seq 7 = 8"
  using increase_seq_wraps [of 65535] increase_seq_wraps [of 7] by simp

lemma increase_seq_range:
  "1 \<le> n \<Longrightarrow> n \<le> 65535 \<Longrightarrow> 1 \<le> increase_seq n \<and> increase_seq n \<le> 65535"
  by (simp add: increase_seq_def Let_def)

subsection \<open>The rounding function at known values\<close>

text \<open>
  \<^verbatim>\<open>0.1\<close> is \<open>3602879701896397 / 2 ^ 55\<close>; \<^verbatim>\<open>0.1 + 0.2\<close> is
  \<^verbatim>\<open>0.30000000000000004\<close>, one unit in the last place above \<^verbatim>\<open>0.3\<close>;
  small integers and halves are kept; \<open>2 ^ 53 + 1\<close> is a tie and rounds to the even
  significand.
\<close>

lemma binary64_tenth:
  "binary64 (1 / 10) = 3602879701896397 / 36028797018963968"
  by code_simp

lemma binary64_sum_tenth_fifth:
  "binary64 (binary64 (1 / 10) + binary64 (2 / 10)) = 5404319552844596 / 18014398509481984
   \<and> binary64 (3 / 10) = 5404319552844595 / 18014398509481984"
  by code_simp

lemma binary64_small_integers:
  "binary64 0 = 0 \<and> binary64 1 = 1 \<and> binary64 (- 3) = - 3 \<and> binary64 (5 / 2) = 5 / 2
   \<and> binary64 9007199254740993 = 9007199254740992"
  by code_simp

subsection \<open>The rounding function is monotone\<close>

text \<open>
  \<open>ilog2\<close> is the binade of a positive number, rounding a significand to the nearest
  integer is monotone and odd, and so is \<open>binary64\<close>.
\<close>

lemma pow2_powi: "pow2 e = 2 powi e"
  by (simp add: pow2_def power_int_def power_one_over)

lemma pow2_pos: "0 < pow2 e"
  by (simp add: pow2_powi zero_less_power_int)

lemma pow2_add: "pow2 (a + b) = pow2 a * pow2 b"
  by (simp add: pow2_powi power_int_add)

lemma pow2_diff: "pow2 (a - b) = pow2 a / pow2 b"
proof -
  have "pow2 a = pow2 (a - b) * pow2 b"
    using pow2_add [of "a - b" b] by simp
  then show ?thesis using pow2_pos [of b] by (simp add: field_simps)
qed

lemma pow2_mono: "a \<le> b \<Longrightarrow> pow2 a \<le> pow2 b"
  by (simp add: pow2_powi power_int_increasing)

lemma pow2_less_imp_less: "pow2 a < pow2 b \<Longrightarrow> a < b"
  using pow2_mono [of b a] by (cases "a < b") auto

lemma pow2_of_nat: "0 \<le> e \<Longrightarrow> pow2 e = of_int (2 ^ nat e)"
  by (simp add: pow2_def)

lemma blen_bounds:
  "0 < n \<Longrightarrow> 0 < blen n \<and> 2 ^ nat (blen n - 1) \<le> n \<and> n < 2 ^ nat (blen n)"
proof (induction n rule: blen.induct)
  case (1 n)
  show ?case
  proof (cases "n = 1")
    case True
    have "blen 0 = 0" by (simp add: blen.simps)
    then have "blen 1 = 1" by (simp add: blen.simps [of 1])
    with True show ?thesis by simp
  next
    case False
    with "1.prems" have h: "0 < n div 2" by simp
    with "1.prems" "1.IH" have ih:
      "0 < blen (n div 2)" "2 ^ nat (blen (n div 2) - 1) \<le> n div 2"
      "n div 2 < 2 ^ nat (blen (n div 2))"
      by auto
    define b where "b = blen (n div 2)"
    have bn: "blen n = b + 1"
      using "1.prems" by (simp add: b_def blen.simps [of n])
    have nb: "nat b = Suc (nat (b - 1))"
      using ih(1) by (simp add: b_def)
    have lo: "(2::int) ^ nat b \<le> n"
    proof -
      have "(2::int) ^ nat b = 2 * 2 ^ nat (b - 1)" by (simp add: nb)
      also have "\<dots> \<le> 2 * (n div 2)" using ih(2) by (simp add: b_def)
      also have "\<dots> \<le> n" by simp
      finally show ?thesis .
    qed
    have hi: "n < (2::int) ^ nat (b + 1)"
    proof -
      have "n div 2 + 1 \<le> 2 ^ nat b" using ih(3) by (simp add: b_def)
      then have "2 * (n div 2) + 2 \<le> 2 * 2 ^ nat b" by simp
      moreover have "n < 2 * (n div 2) + 2" by presburger
      moreover have "nat (b + 1) = Suc (nat b)" using ih(1) by (simp add: b_def)
      ultimately show ?thesis by simp
    qed
    from lo hi ih(1) show ?thesis
      unfolding bn by (simp add: b_def)
  qed
qed

lemma blen_bounds_rat:
  assumes "0 < n"
  shows "pow2 (blen n - 1) \<le> of_int n" "of_int n < pow2 (blen n)"
proof -
  from blen_bounds [OF assms] have b: "0 < blen n" "2 ^ nat (blen n - 1) \<le> n" "n < 2 ^ nat (blen n)"
    by auto
  have "pow2 (blen n - 1) = of_int (2 ^ nat (blen n - 1))"
    using b(1) by (intro pow2_of_nat) simp
  also have "\<dots> \<le> of_int n" using b(2) by (simp only: of_int_le_iff)
  finally show "pow2 (blen n - 1) \<le> of_int n" .
  have "(of_int n :: rat) < of_int (2 ^ nat (blen n))" using b(3) by (simp only: of_int_less_iff)
  also have "\<dots> = pow2 (blen n)"
    using b(1) by (simp add: pow2_of_nat)
  finally show "of_int n < pow2 (blen n)" .
qed

lemma ilog2_bounds:
  assumes "0 < x"
  shows "pow2 (ilog2 x) \<le> x" "x < pow2 (ilog2 x + 1)"
proof -
  obtain p q where pq: "quotient_of x = (p, q)" by (cases "quotient_of x")
  then have q: "0 < q" and x: "x = of_int p / of_int q"
    by (auto dest: quotient_of_denom_pos quotient_of_div)
  have p: "0 < p"
    using assms q x by (simp add: zero_less_divide_iff)
  define e where "e = blen p - blen q"
  have il: "ilog2 x = (if pow2 e \<le> x then e else e - 1)"
    by (simp add: ilog2_def pq e_def Let_def)
  note bp = blen_bounds_rat [OF p]
  note bq = blen_bounds_rat [OF q]
  have qpos: "(0::rat) < of_int q" using q by simp
  have up: "x < pow2 (e + 1)"
  proof -
    have "x * of_int q = of_int p" using x qpos by simp
    also have "\<dots> < pow2 (blen p)" by (rule bp(2))
    also have "\<dots> = pow2 (e + 1) * pow2 (blen q - 1)"
      using pow2_add [of "e + 1" "blen q - 1"] by (simp add: e_def)
    also have "\<dots> \<le> pow2 (e + 1) * of_int q"
      using bq(1) pow2_pos [of "e + 1"] by (simp add: mult_left_mono)
    finally show ?thesis using qpos by (simp add: mult_less_cancel_right)
  qed
  have lo: "pow2 (e - 1) \<le> x"
  proof -
    have "pow2 (e - 1) * of_int q \<le> pow2 (e - 1) * pow2 (blen q)"
      using bq(2) pow2_pos [of "e - 1"] by (simp add: mult_left_mono)
    also have "\<dots> = pow2 (blen p - 1)"
      using pow2_add [of "e - 1" "blen q"] by (simp add: e_def)
    also have "\<dots> \<le> of_int p" by (rule bp(1))
    also have "\<dots> = x * of_int q" using x qpos by simp
    finally show ?thesis using qpos by (simp add: mult_le_cancel_right)
  qed
  show "pow2 (ilog2 x) \<le> x"
    using lo by (simp add: il)
  show "x < pow2 (ilog2 x + 1)"
    using up by (auto simp add: il not_le)
qed

lemma ilog2_mono:
  assumes "0 < x" "x \<le> y"
  shows "ilog2 x \<le> ilog2 y"
proof -
  have "pow2 (ilog2 x) \<le> x" using assms(1) by (rule ilog2_bounds)
  also have "x \<le> y" by fact
  also have "y < pow2 (ilog2 y + 1)" using assms by (intro ilog2_bounds) simp
  finally have "ilog2 x < ilog2 y + 1" by (rule pow2_less_imp_less)
  then show ?thesis by simp
qed

lemma round_half_even_cases:
  "round_half_even q = \<lfloor>q\<rfloor> \<or> round_half_even q = \<lfloor>q\<rfloor> + 1"
  by (simp add: round_half_even_def Let_def)

lemma round_half_even_ge: "of_int n \<le> q \<Longrightarrow> n \<le> round_half_even q"
proof -
  assume "of_int n \<le> q"
  then have "n \<le> \<lfloor>q\<rfloor>" by (simp add: le_floor_iff)
  with round_half_even_cases [of q] show ?thesis by auto
qed

lemma round_half_even_of_int: "round_half_even (of_int n) = n"
  by (simp add: round_half_even_def Let_def)

lemma round_half_even_le: "q \<le> of_int n \<Longrightarrow> round_half_even q \<le> n"
proof (cases "q = of_int n")
  case True
  then show ?thesis by (simp add: round_half_even_of_int)
next
  case False
  assume "q \<le> of_int n"
  with False have "q < of_int n" by simp
  then have "\<lfloor>q\<rfloor> < n" by (simp add: floor_less_iff)
  with round_half_even_cases [of q] show ?thesis by auto
qed

lemma round_half_even_mono:
  assumes "q \<le> r"
  shows "round_half_even q \<le> round_half_even r"
proof (cases "\<lfloor>q\<rfloor> = \<lfloor>r\<rfloor>")
  case False
  with assms have "\<lfloor>q\<rfloor> < \<lfloor>r\<rfloor>" using floor_mono [of q r] by simp
  with round_half_even_cases [of q] round_half_even_cases [of r] show ?thesis by auto
next
  case True
  with assms have "q - of_int \<lfloor>q\<rfloor> \<le> r - of_int \<lfloor>r\<rfloor>" by simp
  with True show ?thesis
    by (auto simp add: round_half_even_def Let_def)
qed

lemma round_half_even_minus: "round_half_even (- q) = - round_half_even q"
proof (cases "q = of_int \<lfloor>q\<rfloor>")
  case True
  then obtain n where "q = of_int n" ..
  then show ?thesis
    using round_half_even_of_int [of n] round_half_even_of_int [of "- n"] by simp
next
  case False
  then have fl: "\<lfloor>- q\<rfloor> = - \<lfloor>q\<rfloor> - 1"
    by (intro floor_unique) (auto simp add: less_le; linarith)+
  define f where "f = \<lfloor>q\<rfloor>"
  define d where "d = q - of_int f"
  have "of_int f \<le> q" "q < of_int f + 1" unfolding f_def by linarith+
  with False have d: "0 < d" "d < 1"
    unfolding d_def f_def by linarith+
  have a: "round_half_even q = (if d < 1 / 2 then f else if d > 1 / 2 then f + 1 else if even f then f else f + 1)"
    by (simp add: round_half_even_def Let_def d_def f_def)
  have "- q - of_int (- f - 1) = 1 - d" by (simp add: d_def)
  then have b: "round_half_even (- q) =
     (if 1 - d < 1 / 2 then - f - 1 else if 1 - d > 1 / 2 then - f else if even (- f - 1) then - f - 1 else - f)"
    by (simp add: round_half_even_def Let_def fl f_def [symmetric])
  show ?thesis
    unfolding a b using d by (auto simp add: field_simps)
qed

lemma binary64_unfold:
  "x \<noteq> 0 \<Longrightarrow>
   binary64 x = of_int (round_half_even (x / pow2 (max (ilog2 \<bar>x\<bar> - 52) (- 1074))))
                  * pow2 (max (ilog2 \<bar>x\<bar> - 52) (- 1074))"
  by (simp add: binary64_def Let_def)

lemma binary64_nonneg: "0 \<le> x \<Longrightarrow> 0 \<le> binary64 x"
proof (cases "x = 0")
  case True
  then show ?thesis by (simp add: binary64_def)
next
  case False
  assume "0 \<le> x"
  then have "of_int 0 \<le> x / pow2 (max (ilog2 \<bar>x\<bar> - 52) (- 1074))"
    using pow2_pos [of "max (ilog2 \<bar>x\<bar> - 52) (- 1074)"] by (simp add: less_imp_le)
  then have "0 \<le> round_half_even (x / pow2 (max (ilog2 \<bar>x\<bar> - 52) (- 1074)))"
    by (rule round_half_even_ge)
  with False show ?thesis
    using pow2_pos [of "max (ilog2 \<bar>x\<bar> - 52) (- 1074)"]
    by (simp add: binary64_unfold zero_le_mult_iff less_imp_le)
qed

lemma binary64_minus: "binary64 (- x) = - binary64 x"
proof (cases "x = 0")
  case True
  then show ?thesis by (simp add: binary64_def)
next
  case False
  then show ?thesis
    by (simp add: binary64_unfold round_half_even_minus)
qed

lemma binary64_lower:
  assumes "0 < x" "- 1022 \<le> ilog2 x"
  shows "pow2 (ilog2 x) \<le> binary64 x"
proof -
  define l where "l = ilog2 x"
  define e where "e = l - 52"
  have ex: "max (ilog2 \<bar>x\<bar> - 52) (- 1074) = e"
    using assms by (simp add: e_def l_def)
  have "of_int (2 ^ 52) = pow2 52" by (simp add: pow2_def)
  also have "\<dots> = pow2 l / pow2 e" using pow2_diff [of l e] by (simp add: e_def)
  also have "\<dots> \<le> x / pow2 e"
    using ilog2_bounds(1) [OF assms(1)] pow2_pos [of e] by (simp add: l_def divide_right_mono)
  finally have "2 ^ 52 \<le> round_half_even (x / pow2 e)"
    by (rule round_half_even_ge)
  then have "(of_int (2 ^ 52) :: rat) \<le> of_int (round_half_even (x / pow2 e))"
    by (simp only: of_int_le_iff)
  then have "of_int (2 ^ 52) * pow2 e \<le> of_int (round_half_even (x / pow2 e)) * pow2 e"
    using pow2_pos [of e] by (simp only: mult_le_cancel_right_pos)
  moreover have "of_int (2 ^ 52) * pow2 e = pow2 l"
    using pow2_add [of 52 e] by (simp add: e_def pow2_def)
  moreover have "binary64 x = of_int (round_half_even (x / pow2 e)) * pow2 e"
    using assms(1) ex by (simp add: binary64_unfold)
  ultimately show ?thesis by (simp add: l_def)
qed

lemma binary64_upper:
  assumes "0 < x"
  shows "binary64 x \<le> pow2 (max (ilog2 x + 1) (- 1022))"
proof -
  define l where "l = ilog2 x"
  define e where "e = max (l - 52) (- 1074)"
  define k where "k = max (l + 1) (- 1022) - e"
  have b: "binary64 x = of_int (round_half_even (x / pow2 e)) * pow2 e"
    using assms by (simp add: binary64_unfold e_def l_def)
  have k: "0 \<le> k" unfolding k_def e_def by linarith
  have "x / pow2 e < pow2 (l + 1) / pow2 e"
    using ilog2_bounds(2) [OF assms] pow2_pos [of e] by (simp add: l_def divide_strict_right_mono)
  also have "\<dots> = pow2 (l + 1 - e)" by (simp add: pow2_diff)
  also have "\<dots> \<le> pow2 k" by (intro pow2_mono) (simp add: k_def)
  also have "\<dots> = of_int (2 ^ nat k)" using k by (rule pow2_of_nat)
  finally have "round_half_even (x / pow2 e) \<le> 2 ^ nat k"
    by (intro round_half_even_le) simp
  then have "(of_int (round_half_even (x / pow2 e)) :: rat) \<le> of_int (2 ^ nat k)"
    by (simp only: of_int_le_iff)
  then have "of_int (round_half_even (x / pow2 e)) * pow2 e \<le> of_int (2 ^ nat k) * pow2 e"
    using pow2_pos [of e] by (simp only: mult_le_cancel_right_pos)
  also have "of_int (2 ^ nat k) * pow2 e = pow2 k * pow2 e"
    using k by (simp add: pow2_of_nat)
  also have "\<dots> = pow2 (max (l + 1) (- 1022))"
    using pow2_add [of k e] by (simp add: k_def)
  finally show ?thesis by (simp add: b l_def)
qed

lemma binary64_mono_pos:
  assumes "0 < x" "x \<le> y"
  shows "binary64 x \<le> binary64 y"
proof -
  have y: "0 < y" using assms by simp
  define lx where "lx = ilog2 x"
  define ly where "ly = ilog2 y"
  have l: "lx \<le> ly" unfolding lx_def ly_def using assms by (rule ilog2_mono)
  show ?thesis
  proof (cases "max (lx - 52) (- 1074) = max (ly - 52) (- 1074)")
    case True
    define e where "e = max (ly - 52) (- 1074)"
    have "x / pow2 e \<le> y / pow2 e"
      using assms(2) pow2_pos [of e] by (simp add: divide_right_mono)
    then have "round_half_even (x / pow2 e) \<le> round_half_even (y / pow2 e)"
      by (rule round_half_even_mono)
    then have "(of_int (round_half_even (x / pow2 e)) :: rat) \<le> of_int (round_half_even (y / pow2 e))"
      by (simp only: of_int_le_iff)
    then have "of_int (round_half_even (x / pow2 e)) * pow2 e
        \<le> of_int (round_half_even (y / pow2 e)) * pow2 e"
      using pow2_pos [of e] by (simp only: mult_le_cancel_right_pos)
    moreover have "binary64 x = of_int (round_half_even (x / pow2 e)) * pow2 e"
      using assms(1) True by (simp add: binary64_unfold e_def lx_def)
    moreover have "binary64 y = of_int (round_half_even (y / pow2 e)) * pow2 e"
      using y by (simp add: binary64_unfold e_def ly_def)
    ultimately show ?thesis by simp
  next
    case False
    with l have lt: "lx < ly" and big: "- 1022 < ly" by auto
    have "binary64 x \<le> pow2 (max (lx + 1) (- 1022))"
      unfolding lx_def using assms(1) by (rule binary64_upper)
    also have "\<dots> \<le> pow2 ly" using lt big by (intro pow2_mono) simp
    also have "\<dots> \<le> binary64 y"
      unfolding ly_def using y big by (intro binary64_lower) (simp_all add: ly_def)
    finally show ?thesis .
  qed
qed

lemma binary64_mono:
  assumes "x \<le> y"
  shows "binary64 x \<le> binary64 y"
proof -
  consider "0 < x" | "x \<le> 0" "0 \<le> y" | "y < 0" by linarith
  then show ?thesis
  proof cases
    case 1
    then show ?thesis using assms by (rule binary64_mono_pos)
  next
    case 2
    have "0 \<le> binary64 (- x)" using 2(1) by (intro binary64_nonneg) simp
    then have "binary64 x \<le> 0" by (simp add: binary64_minus)
    also have "0 \<le> binary64 y" using 2(2) by (rule binary64_nonneg)
    finally show ?thesis .
  next
    case 3
    then have "binary64 (- y) \<le> binary64 (- x)"
      using assms by (intro binary64_mono_pos) simp_all
    then show ?thesis by (simp add: binary64_minus)
  qed
qed

subsection \<open>The running statistics of the aggregator\<close>

lemma exact_eq: "exact = (\<lambda>x. x)"
  by (simp add: exact_def fun_eq_iff)

text \<open>What one append does to each field, for any rounding.\<close>

lemma responses_append_response:
  "responses (append_response rnd rl v) = responses rl @ [v]"
  by (simp add: append_response_def Let_def)

lemma responses_foldl_append_response:
  "responses (foldl (append_response rnd) rl vs) = responses rl @ vs"
  by (induction vs arbitrary: rl) (simp_all add: responses_append_response)

lemma rtt_max_append_response:
  "rtt_max (append_response rnd rl v) =
    (if responses rl = [] then time_elapsed v else max (rtt_max rl) (time_elapsed v))"
  by (auto simp add: append_response_def Let_def)

lemma rtt_min_append_response:
  "rtt_min (append_response rnd rl v) =
    (if responses rl = [] then time_elapsed v else min (rtt_min rl) (time_elapsed v))"
  by (auto simp add: append_response_def Let_def)

lemma rtt_avg_append_response:
  "rtt_avg (append_response rnd rl v) =
    (if responses rl = [] then time_elapsed v
     else rnd (rnd (rnd (rtt_avg rl * of_nat (length (responses rl))) + time_elapsed v)
            / of_nat (Suc (length (responses rl)))))"
  by (auto simp add: append_response_def Let_def)

lemma packets_lost_append_response:
  "packets_lost (append_response rnd rl v) =
    rnd (packets_lost rl
         + rnd ((if success v then 0 else rnd (1 - packets_lost rl))
                / of_nat (Suc (length (responses rl)))))"
  by (auto simp add: append_response_def Let_def)

lemma foldl_snoc_append_response:
  "foldl (append_response rnd) rl (vs @ [v]) = append_response rnd (foldl (append_response rnd) rl vs) v"
  by simp

lemma rtt_max_foldl:
  "responses rl = [] \<Longrightarrow> vs \<noteq> [] \<Longrightarrow>
   rtt_max (foldl (append_response rnd) rl vs) = Max (set (map time_elapsed vs))"
proof (induction vs rule: rev_induct)
  case Nil
  then show ?case by simp
next
  case (snoc v vs)
  show ?case
  proof (cases "vs = []")
    case True
    with snoc.prems show ?thesis by (simp add: rtt_max_append_response)
  next
    case False
    with snoc have ih: "rtt_max (foldl (append_response rnd) rl vs) = Max (set (map time_elapsed vs))"
      by simp
    have "Max (set (map time_elapsed (vs @ [v]))) = max (time_elapsed v) (Max (set (map time_elapsed vs)))"
      using False by simp
    with ih False snoc.prems show ?thesis
      by (simp add: rtt_max_append_response responses_foldl_append_response max.commute)
  qed
qed

lemma rtt_min_foldl:
  "responses rl = [] \<Longrightarrow> vs \<noteq> [] \<Longrightarrow>
   rtt_min (foldl (append_response rnd) rl vs) = Min (set (map time_elapsed vs))"
proof (induction vs rule: rev_induct)
  case Nil
  then show ?case by simp
next
  case (snoc v vs)
  show ?case
  proof (cases "vs = []")
    case True
    with snoc.prems show ?thesis by (simp add: rtt_min_append_response)
  next
    case False
    with snoc have ih: "rtt_min (foldl (append_response rnd) rl vs) = Min (set (map time_elapsed vs))"
      by simp
    have "Min (set (map time_elapsed (vs @ [v]))) = min (time_elapsed v) (Min (set (map time_elapsed vs)))"
      using False by simp
    with ih False snoc.prems show ?thesis
      by (simp add: rtt_min_append_response responses_foldl_append_response min.commute)
  qed
qed

lemma rtt_avg_foldl:
  "responses rl = [] \<Longrightarrow> vs \<noteq> [] \<Longrightarrow>
   rtt_avg (foldl (append_response (\<lambda>x. x)) rl vs) = sum_list (map time_elapsed vs) / of_nat (length vs)"
proof (induction vs rule: rev_induct)
  case Nil
  then show ?case by simp
next
  case (snoc v vs)
  show ?case
  proof (cases "vs = []")
    case True
    with snoc.prems show ?thesis by (simp add: rtt_avg_append_response)
  next
    case False
    with snoc have ih: "rtt_avg (foldl (append_response (\<lambda>x. x)) rl vs) = sum_list (map time_elapsed vs) / of_nat (length vs)"
      by simp
    have len: "(of_nat (length vs) :: rat) \<noteq> 0" using False by simp
    show ?thesis
      using ih False snoc.prems len
      by (simp add: rtt_avg_append_response responses_foldl_append_response)
  qed
qed

text \<open>Without rounding, one append keeps the mean between the extremes.\<close>

lemma exact_step_bounds:
  assumes "responses rl \<noteq> []" "rtt_min rl \<le> rtt_avg rl" "rtt_avg rl \<le> rtt_max rl"
  shows "rtt_min (append_response (\<lambda>x. x) rl v) \<le> rtt_avg (append_response (\<lambda>x. x) rl v)
       \<and> rtt_avg (append_response (\<lambda>x. x) rl v) \<le> rtt_max (append_response (\<lambda>x. x) rl v)"
proof -
  define n :: rat where "n = of_nat (length (responses rl))"
  define e where "e = time_elapsed v"
  have n: "0 < n" using assms(1) by (simp add: n_def)
  have avg: "rtt_avg (append_response (\<lambda>x. x) rl v) = (rtt_avg rl * n + e) / (n + 1)"
    using assms(1) by (simp add: rtt_avg_append_response n_def e_def add.commute)
  have mx: "rtt_max (append_response (\<lambda>x. x) rl v) = max (rtt_max rl) e"
    using assms(1) by (simp add: rtt_max_append_response e_def)
  have mn: "rtt_min (append_response (\<lambda>x. x) rl v) = min (rtt_min rl) e"
    using assms(1) by (simp add: rtt_min_append_response e_def)
  have up: "rtt_avg rl * n + e \<le> max (rtt_max rl) e * (n + 1)"
  proof -
    have "rtt_avg rl * n \<le> max (rtt_max rl) e * n"
      using assms(3) n by (intro mult_right_mono) auto
    moreover have "e \<le> max (rtt_max rl) e" by simp
    ultimately show ?thesis by (simp add: algebra_simps)
  qed
  have lo: "min (rtt_min rl) e * (n + 1) \<le> rtt_avg rl * n + e"
  proof -
    have "min (rtt_min rl) e * n \<le> rtt_avg rl * n"
      using assms(2) n by (intro mult_right_mono) auto
    moreover have "min (rtt_min rl) e \<le> e" by simp
    ultimately show ?thesis by (simp add: algebra_simps)
  qed
  from up lo n show ?thesis
    unfolding avg mx mn by (simp add: pos_le_divide_eq pos_divide_le_eq)
qed

lemma exact_bounds_foldl:
  "responses rl = [] \<Longrightarrow> vs \<noteq> [] \<Longrightarrow>
   rtt_min (foldl (append_response (\<lambda>x. x)) rl vs) \<le> rtt_avg (foldl (append_response (\<lambda>x. x)) rl vs)
   \<and> rtt_avg (foldl (append_response (\<lambda>x. x)) rl vs) \<le> rtt_max (foldl (append_response (\<lambda>x. x)) rl vs)"
proof (induction vs rule: rev_induct)
  case Nil
  then show ?case by simp
next
  case (snoc v vs)
  show ?case
  proof (cases "vs = []")
    case True
    with snoc.prems show ?thesis
      by (simp add: rtt_avg_append_response rtt_min_append_response rtt_max_append_response)
  next
    case False
    with snoc have ih: "rtt_min (foldl (append_response (\<lambda>x. x)) rl vs) \<le> rtt_avg (foldl (append_response (\<lambda>x. x)) rl vs)
   \<and> rtt_avg (foldl (append_response (\<lambda>x. x)) rl vs) \<le> rtt_max (foldl (append_response (\<lambda>x. x)) rl vs)"
      by simp
    have ne: "responses (foldl (append_response (\<lambda>x. x)) rl vs) \<noteq> []"
      using False by (simp add: responses_foldl_append_response)
    show ?thesis
      unfolding foldl_snoc_append_response
      using exact_step_bounds [OF ne] ih by blast
  qed
qed

text \<open>
  Claim C6, as stated, on binary64 numbers: three attempts that each time out after
  \<^verbatim>\<open>0.1\<close> seconds. The arithmetic mean of the three elapsed times is the number
  \<^verbatim>\<open>0.1\<close> itself; the running mean is \<^verbatim>\<open>0.10000000000000002\<close>.
\<close>

theorem rtt_avg_binary64_counterexample:
  "rtt_avg (ResponseList_init binary64
      [timed_out (binary64 (1 / 10)), timed_out (binary64 (1 / 10)), timed_out (binary64 (1 / 10))])
   = 7205759403792795 / 72057594037927936
   \<and> sum_list (map time_elapsed
      [timed_out (binary64 (1 / 10)), timed_out (binary64 (1 / 10)), timed_out (binary64 (1 / 10))])
     / of_nat (length
      [timed_out (binary64 (1 / 10)), timed_out (binary64 (1 / 10)), timed_out (binary64 (1 / 10))])
   = 7205759403792794 / 72057594037927936"
  by code_simp

text \<open>
  Claim C6, amended. For every nonempty sequence of appended results, \<open>rtt_avg\<close> is
  the arithmetic mean of their elapsed times when the running mean is computed in exact
  arithmetic (no rounding); \<open>rtt_min\<close> is their minimum and \<open>rtt_max\<close> their
  maximum, and after the first append all three are that result's elapsed time, whatever
  the rounding. The witness is the example of the spec: 10ms, 20ms and 30ms give 20ms,
  10ms and 30ms.
\<close>

theorem rtt_statistics:
  "vs \<noteq> [] \<Longrightarrow>
   rtt_avg (ResponseList_init exact vs) = sum_list (map time_elapsed vs) / of_nat (length vs)
   \<and> rtt_min (ResponseList_init rnd vs) = Min (set (map time_elapsed vs))
   \<and> rtt_max (ResponseList_init rnd vs) = Max (set (map time_elapsed vs))
   \<and> rtt_avg (ResponseList_init rnd [v]) = time_elapsed v
   \<and> rtt_min (ResponseList_init rnd [v]) = time_elapsed v
   \<and> rtt_max (ResponseList_init rnd [v]) = time_elapsed v"
  unfolding ResponseList_init_def exact_eq
  by (simp add: rtt_avg_foldl rtt_min_foldl rtt_max_foldl empty_ResponseList_def
      rtt_avg_append_response rtt_min_append_response rtt_max_append_response)

theorem rtt_statistics_witness:
  "[echo_reply (1 / 100), echo_reply (2 / 100), timed_out (3 / 100)] \<noteq> []
   \<and> rtt_avg (ResponseList_init exact [echo_reply (1 / 100), echo_reply (2 / 100), timed_out (3 / 100)]) = 2 / 100
   \<and> rtt_min (ResponseList_init binary64 [echo_reply (1 / 100), echo_reply (2 / 100), timed_out (3 / 100)]) = 1 / 100
   \<and> rtt_max (ResponseList_init binary64 [echo_reply (1 / 100), echo_reply (2 / 100), timed_out (3 / 100)]) = 3 / 100"
  using rtt_statistics [where vs = "[echo_reply (1 / 100), echo_reply (2 / 100), timed_out (3 / 100)]"
      and rnd = binary64]
  by (simp add: echo_reply_def timed_out_def)

text \<open>
  The same example on binary64 numbers (the literals \<^verbatim>\<open>0.01\<close>,
  \<^verbatim>\<open>0.02\<close>, \<^verbatim>\<open>0.03\<close>): the rounded operations give exactly the
  number \<^verbatim>\<open>0.02\<close>.
\<close>

lemma rtt_avg_example_binary64:
  "rtt_avg (ResponseList_init binary64
      [echo_reply (binary64 (1 / 100)), echo_reply (binary64 (2 / 100)),
       timed_out (binary64 (3 / 100))])
   = binary64 (2 / 100)"
  by code_simp

text \<open>
  Claim C10, as stated, on binary64 numbers: three attempts that each time out after
  \<^verbatim>\<open>0.1\<close> seconds. The sum \<^verbatim>\<open>0.1 * 2 + 0.1\<close> rounds up to
  \<^verbatim>\<open>0.30000000000000004\<close>, and a third of it rounds to
  \<^verbatim>\<open>0.10000000000000002\<close>, one unit in the last place above the maximum
  \<^verbatim>\<open>0.1\<close>.
\<close>

theorem rtt_bounds_binary64_counterexample:
  "rtt_max (ResponseList_init binary64
      [timed_out (binary64 (1 / 10)), timed_out (binary64 (1 / 10)), timed_out (binary64 (1 / 10))])
   = 7205759403792794 / 72057594037927936
   \<and> rtt_avg (ResponseList_init binary64
      [timed_out (binary64 (1 / 10)), timed_out (binary64 (1 / 10)), timed_out (binary64 (1 / 10))])
   = 7205759403792795 / 72057594037927936
   \<and> rtt_max (ResponseList_init binary64
      [timed_out (binary64 (1 / 10)), timed_out (binary64 (1 / 10)), timed_out (binary64 (1 / 10))])
   < rtt_avg (ResponseList_init binary64
      [timed_out (binary64 (1 / 10)), timed_out (binary64 (1 / 10)), timed_out (binary64 (1 / 10))])"
  by code_simp

text \<open>
  Claim C10, amended. In exact arithmetic, after every append to a response list that
  is then nonempty, \<open>rtt_min \<le> rtt_avg \<le> rtt_max\<close>, for any elapsed times.
\<close>

theorem rtt_bounds_exact:
  "vs \<noteq> [] \<Longrightarrow>
   rtt_min (ResponseList_init exact vs) \<le> rtt_avg (ResponseList_init exact vs)
   \<and> rtt_avg (ResponseList_init exact vs) \<le> rtt_max (ResponseList_init exact vs)"
  unfolding ResponseList_init_def exact_eq
  by (rule exact_bounds_foldl) (simp_all add: empty_ResponseList_def)

theorem rtt_bounds_exact_witness:
  "[timed_out (1 / 10), timed_out (1 / 10), timed_out (1 / 10)] \<noteq> []
   \<and> rtt_min (ResponseList_init exact [timed_out (1 / 10), timed_out (1 / 10), timed_out (1 / 10)])
       \<le> rtt_avg (ResponseList_init exact [timed_out (1 / 10), timed_out (1 / 10), timed_out (1 / 10)])
   \<and> rtt_avg (ResponseList_init exact [timed_out (1 / 10), timed_out (1 / 10), timed_out (1 / 10)])
       \<le> rtt_max (ResponseList_init exact [timed_out (1 / 10), timed_out (1 / 10), timed_out (1 / 10)])"
  using rtt_bounds_exact [of "[timed_out (1 / 10), timed_out (1 / 10), timed_out (1 / 10)]"]
  by simp

subsection \<open>The loss fraction\<close>

text \<open>
  A successful attempt adds \<open>0 / len\<close>: it leaves \<open>packets_lost\<close> as it was,
  where the fraction of failures falls.
\<close>

lemma packets_lost_success_unchanged:
  "success v \<Longrightarrow> packets_lost (append_response exact rl v) = packets_lost rl"
  unfolding exact_eq by (simp add: packets_lost_append_response)

lemma packets_lost_failure:
  "\<not> success v \<Longrightarrow>
   packets_lost (append_response exact rl v)
     = packets_lost rl + (1 - packets_lost rl) / of_nat (Suc (length (responses rl)))"
  unfolding exact_eq by (simp add: packets_lost_append_response)

text \<open>
  Claim C1 at a failing input: a timed-out attempt followed by an Echo Reply. One of two
  attempts failed, and \<open>packets_lost\<close> is 1, in exact arithmetic and on binary64
  numbers alike.
\<close>

theorem packets_lost_failure_then_success:
  "packets_lost (ResponseList_init exact [timed_out 2, echo_reply (1 / 100)]) = 1
   \<and> packets_lost (ResponseList_init binary64 [timed_out 2, echo_reply (binary64 (1 / 100))]) = 1
   \<and> (of_nat (length (filter (\<lambda>v. \<not> success v) [timed_out 2, echo_reply (1 / 100)])) :: rat)
       / of_nat (length [timed_out 2, echo_reply (1 / 100)]) = 1 / 2"
  by code_simp

subsection \<open>Success of an empty series\<close>

text \<open>
  Claim C2, as stated, on the empty series: \<^verbatim>\<open>All\<close> returns true, and
  \<^verbatim>\<open>Most\<close> raises \<^verbatim>\<open>ZeroDivisionError\<close>.
\<close>

theorem success_empty_counterexample:
  "ResponseList_success empty_ResponseList All = Inr True
   \<and> ResponseList_success empty_ResponseList Most = Inl ZeroDivisionError"
  by (simp add: ResponseList_success_def success_list_def empty_ResponseList_def)

text \<open>
  Claim C2, amended. On an empty series \<^verbatim>\<open>success(One)\<close> returns false and
  \<^verbatim>\<open>success(All)\<close> returns true: no attempt succeeded and none failed.
\<close>

theorem success_empty:
  "responses rl = [] \<Longrightarrow>
   ResponseList_success rl One = Inr False \<and> ResponseList_success rl All = Inr True"
  by (simp add: ResponseList_success_def success_list_def)

theorem success_empty_witness:
  "responses empty_ResponseList = []
   \<and> ResponseList_success empty_ResponseList One = Inr False
   \<and> ResponseList_success empty_ResponseList All = Inr True"
  using success_empty [of empty_ResponseList] by (simp add: empty_ResponseList_def)

lemma success_Most_empty:
  "responses rl = [] \<Longrightarrow> ResponseList_success rl Most = Inl ZeroDivisionError"
  by (simp add: ResponseList_success_def success_list_def)

lemma success_Most_nonempty:
  "responses rl \<noteq> [] \<Longrightarrow>
   ResponseList_success rl Most
     = Inr (of_nat (length (responses rl)) < 2 * (of_nat (length (filter success (responses rl))) :: rat))"
  by (simp add: ResponseList_success_def success_list_def count_list_eq_length_filter
      pos_less_divide_eq comp_def mult.commute)

subsection \<open>Listening for the reply\<close>

lemma matching_rule_source:
  "matching_rule packet_id pattern p \<longleftrightarrow>
     icmp_id p = packet_id \<and> message_type p \<noteq> EchoRequest_type_id
     \<and> (case pattern of None \<Rightarrow> True | Some b \<Rightarrow> b = payload p)"
  by (auto simp add: matching_rule_def split: option.splits)

lemma listen_loop_received:
  assumes "0 < time_left" "raw \<noteq> []" "unpack raw = Inr p"
  shows "listen_loop unpack rnd packet_id timeout' pattern time_left (Received raw src left # rs) =
     (if matching_rule packet_id pattern p
      then Some (Inr \<lparr>message = Some \<lparr>target = [], packet = p, source = src\<rparr>,
                      time_elapsed = rnd (timeout' - left)\<rparr>)
      else listen_loop unpack rnd packet_id timeout' pattern left rs)"
  using assms by (auto simp add: listen_loop.simps(2) matching_rule_source Let_def split: option.splits)

lemma listen_loop_expired:
  "time_left \<le> 0 \<Longrightarrow>
   listen_loop unpack rnd packet_id timeout' pattern time_left rs
     = Some (Inr \<lparr>message = None, time_elapsed = timeout'\<rparr>)"
  by (cases rs) (simp_all add: listen_loop.simps(2))

lemma listen_loop_passed_over:
  assumes "0 < time_left" "passed_over unpack packet_id pattern r"
  shows "listen_loop unpack rnd packet_id timeout' pattern time_left (r # rs)
     = listen_loop unpack rnd packet_id timeout' pattern (budget r) rs"
proof (cases r)
  case (ReceiveRaises e)
  with assms(2) show ?thesis by (simp add: passed_over_def)
next
  case (Received raw src left)
  show ?thesis
  proof (cases "raw = []")
    case True
    with Received assms(1) show ?thesis by (simp add: budget_def listen_loop.simps(2))
  next
    case False
    with Received assms(2) obtain p where p: "unpack raw = Inr p" "\<not> matching_rule packet_id pattern p"
      by (auto simp add: passed_over_def split: sum.splits)
    with Received assms(1) False show ?thesis
      by (simp add: listen_loop_received budget_def)
  qed
qed

lemma listen_loop_prefix:
  assumes "0 < time_left" "\<forall>r\<in>set pre. passed_over unpack packet_id pattern r \<and> 0 < budget r"
  shows "\<exists>t. 0 < t \<and> listen_loop unpack rnd packet_id timeout' pattern time_left (pre @ rs)
     = listen_loop unpack rnd packet_id timeout' pattern t rs"
  using assms
proof (induction pre arbitrary: time_left)
  case Nil
  then show ?case by auto
next
  case (Cons r pre)
  have step: "listen_loop unpack rnd packet_id timeout' pattern time_left ((r # pre) @ rs)
      = listen_loop unpack rnd packet_id timeout' pattern (budget r) (pre @ rs)"
    using Cons.prems by (simp add: listen_loop_passed_over)
  have "0 < budget r" using Cons.prems by simp
  moreover have "\<forall>r\<in>set pre. passed_over unpack packet_id pattern r \<and> 0 < budget r"
    using Cons.prems by simp
  ultimately obtain t where "0 < t"
    "listen_loop unpack rnd packet_id timeout' pattern (budget r) (pre @ rs)
      = listen_loop unpack rnd packet_id timeout' pattern t rs"
    using Cons.IH by blast
  with step show ?case by auto
qed

lemma listen_for_times_out:
  assumes "0 < timeout'" "\<forall>r\<in>set pre. passed_over unpack packet_id pattern r \<and> 0 < budget r"
    "passed_over unpack packet_id pattern r" "budget r \<le> 0"
  shows "listen_for unpack rnd packet_id timeout' pattern (pre @ r # rs)
     = Some (Inr \<lparr>message = None, time_elapsed = timeout'\<rparr>)"
proof -
  obtain t where t: "0 < t"
    "listen_loop unpack rnd packet_id timeout' pattern timeout' (pre @ r # rs)
      = listen_loop unpack rnd packet_id timeout' pattern t (r # rs)"
    using listen_loop_prefix [OF assms(1) assms(2)] by blast
  have "listen_loop unpack rnd packet_id timeout' pattern t (r # rs)
      = listen_loop unpack rnd packet_id timeout' pattern (budget r) rs"
    using t(1) assms(3) by (rule listen_loop_passed_over)
  also have "\<dots> = Some (Inr \<lparr>message = None, time_elapsed = timeout'\<rparr>)"
    using assms(4) by (rule listen_loop_expired)
  finally show ?thesis using t(2) by (simp add: listen_for_def)
qed

lemma listen_for_matches:
  assumes "0 < timeout'" "\<forall>r\<in>set pre. passed_over unpack packet_id pattern r \<and> 0 < budget r"
    "raw \<noteq> []" "unpack raw = Inr p" "matching_rule packet_id pattern p"
  shows "listen_for unpack rnd packet_id timeout' pattern (pre @ Received raw src left # rs)
     = Some (Inr \<lparr>message = Some \<lparr>target = [], packet = p, source = src\<rparr>,
                    time_elapsed = rnd (timeout' - left)\<rparr>)"
proof -
  obtain t where t: "0 < t"
    "listen_loop unpack rnd packet_id timeout' pattern timeout' (pre @ Received raw src left # rs)
      = listen_loop unpack rnd packet_id timeout' pattern t (Received raw src left # rs)"
    using listen_loop_prefix [OF assms(1) assms(2)] by blast
  show ?thesis
    using t assms(3-5) by (simp add: listen_for_def listen_loop_received)
qed

lemma listen_loop_result:
  "listen_loop unpack rnd packet_id timeout' pattern time_left rs = Some (Inr res) \<Longrightarrow>
   (message res = None \<and> time_elapsed res = timeout')
   \<or> (\<exists>raw src left p. Received raw src left \<in> set rs \<and> raw \<noteq> [] \<and> unpack raw = Inr p
        \<and> matching_rule packet_id pattern p
        \<and> res = \<lparr>message = Some \<lparr>target = [], packet = p, source = src\<rparr>,
                  time_elapsed = rnd (timeout' - left)\<rparr>)"
proof (induction rs arbitrary: time_left)
  case Nil
  then show ?case by (auto split: if_splits)
next
  case (Cons r rs)
  show ?case
  proof (cases "0 < time_left")
    case False
    with Cons.prems show ?thesis by (auto simp add: listen_loop_expired)
  next
    case True
    show ?thesis
    proof (cases r)
      case (ReceiveRaises e)
      with True Cons.prems show ?thesis by (simp add: listen_loop.simps(2))
    next
      case (Received raw src left)
      show ?thesis
      proof (cases "raw = []")
        case empty: True
        with Received True Cons.prems
        have "listen_loop unpack rnd packet_id timeout' pattern left rs = Some (Inr res)"
          by (simp add: listen_loop.simps(2))
        from Cons.IH [OF this] show ?thesis by auto
      next
        case nonempty: False
        show ?thesis
        proof (cases "unpack raw")
          case (Inl e)
          with Received True nonempty Cons.prems show ?thesis by (simp add: listen_loop.simps(2))
        next
          case (Inr p)
          show ?thesis
          proof (cases "matching_rule packet_id pattern p")
            case m: True
            with Received True nonempty Inr Cons.prems
            have "res = \<lparr>message = Some \<lparr>target = [], packet = p, source = src\<rparr>,
                  time_elapsed = rnd (timeout' - left)\<rparr>"
              by (simp add: listen_loop_received)
            with Received nonempty Inr m show ?thesis by auto
          next
            case m: False
            with Received True nonempty Inr Cons.prems
            have "listen_loop unpack rnd packet_id timeout' pattern left rs = Some (Inr res)"
              by (simp add: listen_loop_received)
            from Cons.IH [OF this] show ?thesis by auto
          qed
        qed
      qed
    qed
  qed
qed


text \<open>
  The loop ends once a call of \<^verbatim>\<open>receive\<close> leaves no time (or raises).
\<close>

lemma listen_loop_returns:
  "\<exists>r\<in>set rs. budget r \<le> 0 \<Longrightarrow>
   \<exists>res. listen_loop unpack rnd packet_id timeout' pattern time_left rs = Some res"
proof (induction rs arbitrary: time_left)
  case Nil
  then show ?case by simp
next
  case (Cons r rs)
  show ?case
  proof (cases "0 < time_left")
    case False
    then show ?thesis by (simp add: listen_loop_expired)
  next
    case True
    show ?thesis
    proof (cases r)
      case (ReceiveRaises e)
      with True show ?thesis by (simp add: listen_loop.simps(2))
    next
      case (Received raw src left)
      have rest: "\<exists>res. listen_loop unpack rnd packet_id timeout' pattern left rs = Some res"
      proof (cases "left \<le> 0")
        case True
        then show ?thesis by (simp add: listen_loop_expired)
      next
        case False
        with Cons.prems Received have "\<exists>r\<in>set rs. budget r \<le> 0"
          by (auto simp add: budget_def)
        then show ?thesis by (rule Cons.IH)
      qed
      with True Received show ?thesis
        by (auto simp add: listen_loop.simps(2) Let_def split: sum.splits option.splits)
    qed
  qed
qed


text \<open>
  Claim C5. \<^verbatim>\<open>listen_for\<close> accepts a received packet that parses as the reply if
  and only if it satisfies the matching rule. After results that are passed over and
  leave time, a packet that satisfies the rule is returned with the elapsed time, and one
  that does not is passed over: the loop goes on with the time the call left. If it is the
  last result, \<^verbatim>\<open>listen_for\<close> returns a message exactly if the rule holds.
\<close>

theorem reply_accepted_iff_matching_rule:
  "0 < timeout' \<Longrightarrow> \<forall>r\<in>set pre. passed_over unpack packet_id sent r \<and> 0 < budget r \<Longrightarrow>
   raw \<noteq> [] \<Longrightarrow> unpack raw = Inr p \<Longrightarrow>
   listen_for unpack rnd packet_id timeout' sent (pre @ Received raw src left # rs) =
     (if matching_rule packet_id sent p
      then Some (Inr \<lparr>message = Some \<lparr>target = [], packet = p, source = src\<rparr>,
                      time_elapsed = rnd (timeout' - left)\<rparr>)
      else listen_loop unpack rnd packet_id timeout' sent left rs)
   \<and> ((\<exists>res. listen_for unpack rnd packet_id timeout' sent (pre @ [Received raw src left])
              = Some (Inr res) \<and> message res \<noteq> None)
        = matching_rule packet_id sent p)"
proof -
  assume a: "0 < timeout'" "\<forall>r\<in>set pre. passed_over unpack packet_id sent r \<and> 0 < budget r"
    "raw \<noteq> []" "unpack raw = Inr p"
  have step: "listen_for unpack rnd packet_id timeout' sent (pre @ Received raw src left # xs) =
     (if matching_rule packet_id sent p
      then Some (Inr \<lparr>message = Some \<lparr>target = [], packet = p, source = src\<rparr>,
                      time_elapsed = rnd (timeout' - left)\<rparr>)
      else listen_loop unpack rnd packet_id timeout' sent left xs)" for xs
  proof -
    obtain t where t: "0 < t"
      "listen_loop unpack rnd packet_id timeout' sent timeout' (pre @ Received raw src left # xs)
        = listen_loop unpack rnd packet_id timeout' sent t (Received raw src left # xs)"
      using listen_loop_prefix [OF a(1) a(2)] by blast
    show ?thesis
      unfolding listen_for_def t(2) using t(1) a(3,4) by (rule listen_loop_received)
  qed
  have last: "(\<exists>res. listen_for unpack rnd packet_id timeout' sent (pre @ [Received raw src left])
              = Some (Inr res) \<and> message res \<noteq> None)
        = matching_rule packet_id sent p"
  proof (cases "matching_rule packet_id sent p")
    case True
    then show ?thesis by (simp add: step)
  next
    case False
    have "listen_loop unpack rnd packet_id timeout' sent left [] = None
        \<or> listen_loop unpack rnd packet_id timeout' sent left []
             = Some (Inr \<lparr>message = None, time_elapsed = timeout'\<rparr>)"
      by simp
    with False show ?thesis by (auto simp add: step)
  qed
  from step [of rs] last show ?thesis by simp
qed

lemma binary64_quarter: "binary64 (2 - 7 / 4) = 1 / 4"
  by code_simp

theorem reply_accepted_iff_matching_rule_witness:
  "listen_for decode binary64 7 2 (Some [97, 98])
       [Received other_id_raw ''192.0.2.9'' (15 / 8), Received reply_raw ''192.0.2.1'' (7 / 4)]
     = Some (Inr \<lparr>message = Some \<lparr>target = [], packet = \<lparr>message_type = 0, message_code = 0,
           icmp_id = 7, payload = [97, 98]\<rparr>, source = ''192.0.2.1''\<rparr>, time_elapsed = 1 / 4\<rparr>)
   \<and> listen_for decode binary64 7 2 (Some [97, 98]) [Received other_id_raw ''192.0.2.1'' (7 / 4)] = None
   \<and> listen_for decode binary64 7 2 (Some [97, 98]) [Received request_raw ''192.0.2.1'' (7 / 4)] = None
   \<and> listen_for decode binary64 7 2 (Some [97, 98]) [Received altered_raw ''192.0.2.1'' (7 / 4)] = None
   \<and> listen_for decode binary64 7 2 None [Received altered_raw ''192.0.2.1'' (7 / 4)]
     = Some (Inr \<lparr>message = Some \<lparr>target = [], packet = \<lparr>message_type = 0, message_code = 0,
           icmp_id = 7, payload = [97, 99]\<rparr>, source = ''192.0.2.1''\<rparr>, time_elapsed = 1 / 4\<rparr>)"
  using
    reply_accepted_iff_matching_rule [where timeout' = 2 and raw = reply_raw and unpack = decode
      and p = "\<lparr>message_type = 0, message_code = 0, icmp_id = 7, payload = [97, 98]\<rparr>"
      and packet_id = 7 and sent = "Some [97, 98]" and src = "''192.0.2.1''" and rnd = binary64
      and left = "7 / 4" and rs = "[]" and pre = "[Received other_id_raw ''192.0.2.9'' (15 / 8)]"]
    reply_accepted_iff_matching_rule [where timeout' = 2 and raw = other_id_raw and unpack = decode
      and p = "\<lparr>message_type = 0, message_code = 0, icmp_id = 8, payload = [97, 98]\<rparr>"
      and packet_id = 7 and sent = "Some [97, 98]" and src = "''192.0.2.1''" and rnd = binary64
      and left = "7 / 4" and rs = "[]" and pre = "[]"]
    reply_accepted_iff_matching_rule [where timeout' = 2 and raw = request_raw and unpack = decode
      and p = "\<lparr>message_type = 8, message_code = 0, icmp_id = 7, payload = [97, 98]\<rparr>"
      and packet_id = 7 and sent = "Some [97, 98]" and src = "''192.0.2.1''" and rnd = binary64
      and left = "7 / 4" and rs = "[]" and pre = "[]"]
    reply_accepted_iff_matching_rule [where timeout' = 2 and raw = altered_raw and unpack = decode
      and p = "\<lparr>message_type = 0, message_code = 0, icmp_id = 7, payload = [97, 99]\<rparr>"
      and packet_id = 7 and sent = "Some [97, 98]" and src = "''192.0.2.1''" and rnd = binary64
      and left = "7 / 4" and rs = "[]" and pre = "[]"]
    reply_accepted_iff_matching_rule [where timeout' = 2 and raw = altered_raw and unpack = decode
      and p = "\<lparr>message_type = 0, message_code = 0, icmp_id = 7, payload = [97, 99]\<rparr>"
      and packet_id = 7 and sent = None and src = "''192.0.2.1''" and rnd = binary64
      and left = "7 / 4" and rs = "[]" and pre = "[]"]
    binary64_quarter
  by (simp add: decode_def reply_raw_def other_id_raw_def request_raw_def altered_raw_def
      matching_rule_def EchoRequest_type_id_def passed_over_def budget_def)

text \<open>The three cases that the claim singles out.\<close>

lemma other_identifier_never_matches:
  "0 < time_left \<Longrightarrow> raw \<noteq> [] \<Longrightarrow> unpack raw = Inr p \<Longrightarrow> icmp_id p \<noteq> packet_id \<Longrightarrow>
   listen_loop unpack rnd packet_id timeout' sent time_left (Received raw src left # rs)
     = listen_loop unpack rnd packet_id timeout' sent left rs"
  by (simp add: listen_loop_received matching_rule_def)

lemma echo_request_never_matches:
  "0 < time_left \<Longrightarrow> raw \<noteq> [] \<Longrightarrow> unpack raw = Inr p \<Longrightarrow>
   message_type p = EchoRequest_type_id \<Longrightarrow>
   listen_loop unpack rnd packet_id timeout' sent time_left (Received raw src left # rs)
     = listen_loop unpack rnd packet_id timeout' sent left rs"
  by (simp add: listen_loop_received matching_rule_def)

lemma other_payload_never_matches:
  "0 < time_left \<Longrightarrow> raw \<noteq> [] \<Longrightarrow> unpack raw = Inr p \<Longrightarrow> payload p \<noteq> b \<Longrightarrow>
   listen_loop unpack rnd packet_id timeout' (Some b) time_left (Received raw src left # rs)
     = listen_loop unpack rnd packet_id timeout' (Some b) left rs"
  by (simp add: listen_loop_received matching_rule_def)

text \<open>
  Claim C4. \<^verbatim>\<open>listen_for\<close> returns no message and the per-packet timeout as
  elapsed time when the budget is used up without a match: at once if the timeout is not
  positive, and else after calls of \<^verbatim>\<open>receive\<close> whose results are all passed
  over, the last one leaving no time. It returns the matching packet and the timeout
  minus the remaining budget (the subtraction as the number system rounds it) when a
  matching packet arrives after results that are passed over and leave time.
\<close>

theorem listen_for_result:
  "(timeout' \<le> 0 \<longrightarrow>
      listen_for unpack rnd packet_id timeout' sent rs
        = Some (Inr \<lparr>message = None, time_elapsed = timeout'\<rparr>))
   \<and> (0 < timeout' \<and> (\<forall>r\<in>set pre. passed_over unpack packet_id sent r \<and> 0 < budget r)
        \<and> passed_over unpack packet_id sent final \<and> budget final \<le> 0 \<longrightarrow>
      listen_for unpack rnd packet_id timeout' sent (pre @ final # rs)
        = Some (Inr \<lparr>message = None, time_elapsed = timeout'\<rparr>))
   \<and> (0 < timeout' \<and> (\<forall>r\<in>set pre. passed_over unpack packet_id sent r \<and> 0 < budget r)
        \<and> raw \<noteq> [] \<and> unpack raw = Inr p \<and> matching_rule packet_id sent p \<longrightarrow>
      listen_for unpack rnd packet_id timeout' sent (pre @ Received raw src left # rs)
        = Some (Inr \<lparr>message = Some \<lparr>target = [], packet = p, source = src\<rparr>,
                       time_elapsed = rnd (timeout' - left)\<rparr>))"
proof (intro conjI impI)
  assume "timeout' \<le> 0"
  then show "listen_for unpack rnd packet_id timeout' sent rs
        = Some (Inr \<lparr>message = None, time_elapsed = timeout'\<rparr>)"
    by (simp add: listen_for_def listen_loop_expired)
next
  assume "0 < timeout' \<and> (\<forall>r\<in>set pre. passed_over unpack packet_id sent r \<and> 0 < budget r)
        \<and> passed_over unpack packet_id sent final \<and> budget final \<le> 0"
  then show "listen_for unpack rnd packet_id timeout' sent (pre @ final # rs)
        = Some (Inr \<lparr>message = None, time_elapsed = timeout'\<rparr>)"
    by (intro listen_for_times_out) simp_all
next
  assume "0 < timeout' \<and> (\<forall>r\<in>set pre. passed_over unpack packet_id sent r \<and> 0 < budget r)
        \<and> raw \<noteq> [] \<and> unpack raw = Inr p \<and> matching_rule packet_id sent p"
  then show "listen_for unpack rnd packet_id timeout' sent (pre @ Received raw src left # rs)
        = Some (Inr \<lparr>message = Some \<lparr>target = [], packet = p, source = src\<rparr>,
                       time_elapsed = rnd (timeout' - left)\<rparr>)"
    by (intro listen_for_matches) simp_all
qed

text \<open>
  The witness runs on binary64 numbers: with a timeout of 2s and a reply that leaves
  \<^verbatim>\<open>0.1\<close>, the elapsed time is the number \<^verbatim>\<open>1.9\<close>, which is
  \<open>4278419646001971 / 2 ^ 51\<close>.
\<close>

lemma binary64_two_minus_tenth:
  "binary64 (2 - binary64 (1 / 10)) = 4278419646001971 / 2251799813685248
   \<and> binary64 (19 / 10) = 4278419646001971 / 2251799813685248
   \<and> 0 < binary64 (1 / 10)"
  by code_simp

theorem listen_for_result_witness:
  "listen_for decode binary64 7 0 None [Received reply_raw ''192.0.2.1'' 0]
     = Some (Inr \<lparr>message = None, time_elapsed = 0\<rparr>)
   \<and> listen_for decode binary64 7 2 None [Received other_id_raw ''192.0.2.9'' (3 / 2), Received [] [] 0]
     = Some (Inr \<lparr>message = None, time_elapsed = 2\<rparr>)
   \<and> listen_for decode binary64 7 2 None
        [Received other_id_raw ''192.0.2.9'' (3 / 2), Received reply_raw ''192.0.2.1'' (binary64 (1 / 10))]
     = Some (Inr \<lparr>message = Some \<lparr>target = [], packet = \<lparr>message_type = 0, message_code = 0,
           icmp_id = 7, payload = [97, 98]\<rparr>, source = ''192.0.2.1''\<rparr>,
         time_elapsed = 4278419646001971 / 2251799813685248\<rparr>)"
  using
    listen_for_result [where timeout' = 0 and unpack = decode and packet_id = 7 and sent = None
      and rs = "[Received reply_raw ''192.0.2.1'' 0]" and pre = "[]" and final = "Received [] [] 0"
      and raw = reply_raw and src = "[]" and left = 0 and rnd = binary64
      and p = "\<lparr>message_type = 0, message_code = 0, icmp_id = 7, payload = [97, 98]\<rparr>"]
    listen_for_result [where timeout' = 2 and unpack = decode and packet_id = 7 and sent = None
      and rs = "[]" and pre = "[Received other_id_raw ''192.0.2.9'' (3 / 2)]"
      and final = "Received [] [] 0" and rnd = binary64
      and raw = reply_raw and src = "''192.0.2.1''" and left = "binary64 (1 / 10)"
      and p = "\<lparr>message_type = 0, message_code = 0, icmp_id = 7, payload = [97, 98]\<rparr>"]
    binary64_two_minus_tenth
  by (simp add: decode_def reply_raw_def other_id_raw_def matching_rule_def passed_over_def
      budget_def EchoRequest_type_id_def)

subsection \<open>The overall deadline\<close>

lemma run_loop_Cons_cases:
  assumes "run_loop unpack rnd c mp start env i seq sent rl (p # ps) = Some (Inr (sent', rl'))"
  obtains response where
    "send_raises (env i) = None"
    "listen_for unpack rnd (seed_id c) (timeout c) (if \<not> mp then None else Some p) (receives (env i))
       = Some (Inr response)"
    "deadline_reached rnd c (rnd (clock (env i) - start))"
    "sent' = sent @ [(seed_id c, seq, p)]"
    "rl' = (append_response rnd rl response)\<lparr>stop_time := Some (clock (env i))\<rparr>"
  | response where
    "send_raises (env i) = None"
    "listen_for unpack rnd (seed_id c) (timeout c) (if \<not> mp then None else Some p) (receives (env i))
       = Some (Inr response)"
    "\<not> deadline_reached rnd c (rnd (clock (env i) - start))"
    "0 \<le> interval c"
    "run_loop unpack rnd c mp start env (Suc i) (increase_seq seq) (sent @ [(seed_id c, seq, p)])
       ((append_response rnd rl response)\<lparr>stop_time := Some (clock (env i))\<rparr>) ps
       = Some (Inr (sent', rl'))"
  using assms
  by (auto simp add: send_ping_def Let_def split: option.splits sum.splits if_splits)

lemma run_loop_attempts:
  "run_loop unpack rnd c mp start env i seq sent rl provider = Some (Inr (sent', rl')) \<Longrightarrow>
   \<exists>n. n \<le> length provider
     \<and> length sent' = length sent + n
     \<and> length (responses rl') = length (responses rl) + n
     \<and> (\<forall>k. Suc k < n \<longrightarrow> \<not> deadline_reached rnd c (rnd (clock (env (i + k)) - start)))
     \<and> (n < length provider \<longrightarrow>
          0 < n \<and> deadline_reached rnd c (rnd (clock (env (i + n - 1)) - start)))"
proof (induction provider arbitrary: i seq sent rl)
  case Nil
  then show ?case by simp
next
  case (Cons p ps)
  from Cons.prems show ?case
  proof (cases rule: run_loop_Cons_cases)
    case (1 response)
    then have "1 \<le> length (p # ps)
     \<and> length sent' = length sent + 1
     \<and> length (responses rl') = length (responses rl) + 1
     \<and> (\<forall>k. Suc k < 1 \<longrightarrow> \<not> deadline_reached rnd c (rnd (clock (env (i + k)) - start)))
     \<and> (1 < length (p # ps) \<longrightarrow>
          0 < (1::nat) \<and> deadline_reached rnd c (rnd (clock (env (i + 1 - 1)) - start)))"
      by (simp add: responses_append_response)
    then show ?thesis by blast
  next
    case (2 response)
    from Cons.IH [OF 2(5)] obtain n where n:
      "n \<le> length ps"
      "length sent' = length (sent @ [(seed_id c, seq, p)]) + n"
      "length (responses rl')
         = length (responses ((append_response rnd rl response)\<lparr>stop_time := Some (clock (env i))\<rparr>)) + n"
      "\<forall>k. Suc k < n \<longrightarrow> \<not> deadline_reached rnd c (rnd (clock (env (Suc i + k)) - start))"
      "n < length ps \<longrightarrow> 0 < n \<and> deadline_reached rnd c (rnd (clock (env (Suc i + n - 1)) - start))"
      by blast
    have a: "Suc n \<le> length (p # ps)" using n(1) by simp
    have b: "length sent' = length sent + Suc n" using n(2) by simp
    have c: "length (responses rl') = length (responses rl) + Suc n"
      using n(3) by (simp add: responses_append_response)
    have d: "\<forall>k. Suc k < Suc n \<longrightarrow> \<not> deadline_reached rnd c (rnd (clock (env (i + k)) - start))"
    proof (intro allI impI)
      fix k assume k: "Suc k < Suc n"
      show "\<not> deadline_reached rnd c (rnd (clock (env (i + k)) - start))"
      proof (cases k)
        case 0
        with 2(3) show ?thesis by simp
      next
        case (Suc k')
        with k have "Suc k' < n" by simp
        with n(4) have "\<not> deadline_reached rnd c (rnd (clock (env (Suc i + k')) - start))" by blast
        with Suc show ?thesis by simp
      qed
    qed
    have e: "Suc n < length (p # ps) \<longrightarrow>
          0 < Suc n \<and> deadline_reached rnd c (rnd (clock (env (i + Suc n - 1)) - start))"
    proof
      assume "Suc n < length (p # ps)"
      then have "n < length ps" by simp
      with n(5) have "0 < n" "deadline_reached rnd c (rnd (clock (env (Suc i + n - 1)) - start))" by auto
      moreover from \<open>0 < n\<close> have "Suc i + n - 1 = i + Suc n - 1" by simp
      ultimately show "0 < Suc n \<and> deadline_reached rnd c (rnd (clock (env (i + Suc n - 1)) - start))"
        by simp
    qed
    from a b c d e show ?thesis by blast
  qed
qed

lemma run_attempts:
  assumes "run unpack rnd c rl0 mp provider start env = Some (Inr (sent, rl))"
  shows "length sent = length (responses rl)"
    and "length sent \<le> length provider"
    and "\<forall>k. Suc k < length sent \<longrightarrow> \<not> deadline_reached rnd c (rnd (clock (env k) - start))"
    and "length sent < length provider \<longrightarrow>
          0 < length sent \<and> deadline_reached rnd c (rnd (clock (env (length sent - 1)) - start))"
proof -
  from assms obtain n where n:
    "n \<le> length provider" "length sent = n" "length (responses rl) = n"
    "\<forall>k. Suc k < n \<longrightarrow> \<not> deadline_reached rnd c (rnd (clock (env k) - start))"
    "n < length provider \<longrightarrow> 0 < n \<and> deadline_reached rnd c (rnd (clock (env (n - 1)) - start))"
    unfolding run_def
    by (auto dest!: run_loop_attempts simp add: clear_def)
  then show "length sent = length (responses rl)" "length sent \<le> length provider"
    "\<forall>k. Suc k < length sent \<longrightarrow> \<not> deadline_reached rnd c (rnd (clock (env k) - start))"
    "length sent < length provider \<longrightarrow>
          0 < length sent \<and> deadline_reached rnd c (rnd (clock (env (length sent - 1)) - start))"
    by simp_all
qed


text \<open>
  \<^verbatim>\<open>run\<close> returns if no send raises, every attempt's \<^verbatim>\<open>listen_for\<close> returns
  a result and the interval is not negative.
\<close>

lemma run_loop_returns:
  assumes "0 \<le> interval c"
  shows "\<forall>k<length provider. send_raises (env (i + k)) = None \<Longrightarrow>
    \<forall>k<length provider. \<exists>r. listen_for unpack rnd (seed_id c) (timeout c)
        (if \<not> mp then None else Some (provider ! k)) (receives (env (i + k))) = Some (Inr r) \<Longrightarrow>
    \<exists>res. run_loop unpack rnd c mp start env i seq sent rl provider = Some (Inr res)"
proof (induction provider arbitrary: i seq sent rl)
  case Nil
  show ?case by simp
next
  case (Cons p ps)
  from Cons.prems(1) have s0: "send_raises (env i) = None" by force
  from Cons.prems(2) obtain r where r: "listen_for unpack rnd (seed_id c) (timeout c)
      (if \<not> mp then None else Some p) (receives (env i)) = Some (Inr r)"
    by force
  have s: "\<forall>k<length ps. send_raises (env (Suc i + k)) = None"
  proof (intro allI impI)
    fix k assume "k < length ps"
    then have "Suc k < length (p # ps)" by simp
    with Cons.prems(1) have "send_raises (env (i + Suc k)) = None" by blast
    then show "send_raises (env (Suc i + k)) = None" by simp
  qed
  have l: "\<forall>k<length ps. \<exists>r. listen_for unpack rnd (seed_id c) (timeout c)
        (if \<not> mp then None else Some (ps ! k)) (receives (env (Suc i + k))) = Some (Inr r)"
  proof (intro allI impI)
    fix k assume "k < length ps"
    then have "Suc k < length (p # ps)" by simp
    with Cons.prems(2) have "\<exists>r. listen_for unpack rnd (seed_id c) (timeout c)
        (if \<not> mp then None else Some ((p # ps) ! Suc k)) (receives (env (i + Suc k))) = Some (Inr r)"
      by blast
    then show "\<exists>r. listen_for unpack rnd (seed_id c) (timeout c)
        (if \<not> mp then None else Some (ps ! k)) (receives (env (Suc i + k))) = Some (Inr r)"
      by (cases mp) simp_all
  qed
  note ih = Cons.IH [OF s l]
  show ?case
  proof (cases "deadline_reached rnd c (rnd (clock (env i) - start))")
    case True
    with r s0 show ?thesis by (simp add: send_ping_def Let_def)
  next
    case False
    with r s0 assms ih show ?thesis
      by (simp add: send_ping_def Let_def not_less [symmetric])
  qed
qed

lemma run_returns:
  assumes "0 \<le> interval c" "\<forall>k<length provider. send_raises (env k) = None"
    "\<forall>k<length provider. \<exists>r. listen_for unpack rnd (seed_id c) (timeout c)
        (if \<not> mp then None else Some (provider ! k)) (receives (env k)) = Some (Inr r)"
  shows "\<exists>sent rl. run unpack rnd c rl0 mp provider start env = Some (Inr (sent, rl))"
  unfolding run_def
  using run_loop_returns [OF assms(1), of provider env 0 unpack rnd mp] assms(2,3)
  by (metis add_0 surj_pair)

text \<open>
  With an overall timeout of 2.5s and an interval of 1s the deadline test holds after
  the third attempt at the latest, for a rounding that is monotone and keeps 2 and 3.
\<close>

lemma run_at_most_three:
  assumes "run unpack rnd c rl0 mp provider start env = Some (Inr (sent, rl))"
    "\<forall>x y. x \<le> y \<longrightarrow> rnd x \<le> rnd y" "rnd 2 = 2" "rnd 3 = 3"
    "overall_timeout c = Some (5 / 2)" "interval c = 1"
    "start \<le> clock (env 0)" "clock (env 0) + 1 \<le> clock (env 1)"
    "clock (env 1) + 1 \<le> clock (env 2)"
  shows "length sent \<le> 3"
proof (rule ccontr)
  assume "\<not> length sent \<le> 3"
  then have "Suc 2 < length sent" by simp
  with run_attempts(3) [OF assms(1)]
  have n: "\<not> deadline_reached rnd c (rnd (clock (env 2) - start))" by blast
  have "2 \<le> clock (env 2) - start"
    using assms(7-9) by linarith
  with assms(2) have "rnd 2 \<le> rnd (clock (env 2) - start)" by blast
  then have "3 \<le> rnd (clock (env 2) - start) + 1" using assms(3) by simp
  with assms(2) have "rnd 3 \<le> rnd (rnd (clock (env 2) - start) + 1)" by blast
  then have "5 / 2 \<le> rnd (rnd (clock (env 2) - start) + 1)" using assms(4) by simp
  with n show False
    using assms(5,6) by (simp add: deadline_reached_def)
qed

text \<open>
  The rounding decides the test: with an interval of \<^verbatim>\<open>0.2\<close>, an overall
  timeout of \<^verbatim>\<open>0.30000000000000004\<close> and an overall runtime of
  \<^verbatim>\<open>0.1\<close>, the rounded sum \<^verbatim>\<open>0.1 + 0.2\<close> is the timeout and the
  session stops, where the exact sum is below it.
\<close>

lemma deadline_reached_rounded:
  "deadline_reached binary64
     \<lparr>timeout = 2, seed_id = 7, interval = binary64 (2 / 10),
      overall_timeout = Some (binary64 (binary64 (1 / 10) + binary64 (2 / 10)))\<rparr>
     (binary64 (binary64 (1 / 10) - 0))
   \<and> \<not> deadline_reached exact
     \<lparr>timeout = 2, seed_id = 7, interval = binary64 (2 / 10),
      overall_timeout = Some (binary64 (binary64 (1 / 10) + binary64 (2 / 10)))\<rparr>
     (exact (binary64 (1 / 10) - 0))"
  by code_simp

lemma run_quick_reply:
  "requests_sent (run decode binary64 session_2500ms empty_ResponseList False
      (replicate 10 [97, 98]) 0 quick_reply)
   = Some [(7, 1, [97, 98]), (7, 2, [97, 98]), (7, 3, [97, 98])]"
  by code_simp

text \<open>
  Claim C7, as stated, at a concrete session on binary64 numbers: overall timeout 2.5s,
  interval 1s, ten payloads, every request answered after 10ms. The deadline test fails
  after the first attempt (0.01 + 1 < 2.5) and after the second (1.02 + 1 < 2.5) and
  holds after the third (2.03 + 1 \<ge> 2.5): three requests are sent, with the sequence
  numbers 1, 2, 3.
\<close>

theorem run_three_attempts_counterexample:
  "requests_sent (run decode binary64 session_2500ms empty_ResponseList False
      (replicate 10 [97, 98]) 0 quick_reply)
   = Some [(7, 1, [97, 98]), (7, 2, [97, 98]), (7, 3, [97, 98])]"
  by (rule run_quick_reply)

text \<open>
  Claim C7, amended. If no send raises, every attempt ends with a result and the interval
  is not negative, \<^verbatim>\<open>run\<close> returns, with one result appended per request sent.
  It went on to the next payload after every attempt at which the deadline test (overall
  elapsed time plus interval at least the overall timeout, in the arithmetic of the number
  system) failed, and stopped at the first attempt at which it held, even with payloads
  left. With an overall timeout of 2.5s and an interval of 1s, at most three attempts are
  made, whatever the number of payloads, if the rounding is monotone and keeps 2 and 3,
  the first reading of the clock is not before the start and each of the first two sleeps
  advances it by at least the interval.
\<close>

theorem run_stops_at_deadline:
  "0 \<le> interval c \<Longrightarrow> \<forall>k<length provider. send_raises (env k) = None \<Longrightarrow>
   \<forall>k<length provider. \<exists>r. listen_for unpack rnd (seed_id c) (timeout c)
        (if \<not> mp then None else Some (provider ! k)) (receives (env k)) = Some (Inr r) \<Longrightarrow>
   \<exists>sent rl. run unpack rnd c rl0 mp provider start env = Some (Inr (sent, rl))
     \<and> length (responses rl) = length sent
     \<and> length sent \<le> length provider
     \<and> (\<forall>k. Suc k < length sent \<longrightarrow> \<not> deadline_reached rnd c (rnd (clock (env k) - start)))
     \<and> (length sent < length provider \<longrightarrow>
          0 < length sent
          \<and> deadline_reached rnd c (rnd (clock (env (length sent - 1)) - start)))
     \<and> ((\<forall>x y. x \<le> y \<longrightarrow> rnd x \<le> rnd y) \<and> rnd 2 = 2 \<and> rnd 3 = 3
          \<and> overall_timeout c = Some (5 / 2) \<and> interval c = 1 \<and> start \<le> clock (env 0)
          \<and> clock (env 0) + 1 \<le> clock (env 1) \<and> clock (env 1) + 1 \<le> clock (env 2) \<longrightarrow>
        length sent \<le> 3)"
proof -
  assume a: "0 \<le> interval c" "\<forall>k<length provider. send_raises (env k) = None"
    "\<forall>k<length provider. \<exists>r. listen_for unpack rnd (seed_id c) (timeout c)
        (if \<not> mp then None else Some (provider ! k)) (receives (env k)) = Some (Inr r)"
  from run_returns [OF a] obtain sent rl
    where r: "run unpack rnd c rl0 mp provider start env = Some (Inr (sent, rl))"
    by blast
  from run_attempts [OF r] run_at_most_three [OF r] r show ?thesis
    by (intro exI [of _ sent] exI [of _ rl]) simp
qed

lemma binary64_keeps_2_3: "binary64 2 = 2 \<and> binary64 3 = 3"
  by code_simp

lemma quick_reply_listen:
  "listen_for decode binary64 7 2 None [Received reply_raw ''192.0.2.1'' (binary64 (199 / 100))]
     = Some (Inr (echo_reply (binary64 (2 - binary64 (199 / 100)))))"
  by code_simp

lemma quick_reply_clock:
  "(0::rat) \<le> clock (quick_reply 0) \<and> clock (quick_reply 0) + 1 \<le> clock (quick_reply 1)
   \<and> clock (quick_reply 1) + 1 \<le> clock (quick_reply 2)"
  by code_simp

theorem run_stops_at_deadline_witness:
  "requests_sent (run decode binary64 session_2500ms empty_ResponseList False
      (replicate 10 [97, 98]) 0 quick_reply)
     = Some [(7, 1, [97, 98]), (7, 2, [97, 98]), (7, 3, [97, 98])]
   \<and> \<not> deadline_reached binary64 session_2500ms (binary64 (clock (quick_reply 0) - 0))
   \<and> \<not> deadline_reached binary64 session_2500ms (binary64 (clock (quick_reply 1) - 0))
   \<and> deadline_reached binary64 session_2500ms (binary64 (clock (quick_reply 2) - 0))"
proof -
  have r: "requests_sent (run decode binary64 session_2500ms empty_ResponseList False
      (replicate 10 [97, 98]) 0 quick_reply)
     = Some [(7, 1, [97, 98]), (7, 2, [97, 98]), (7, 3, [97, 98])]"
    by (rule run_quick_reply)
  have sends: "\<forall>k<length (replicate 10 [97, 98 :: 8 word]). send_raises (quick_reply k) = None"
    by (simp add: quick_reply_def)
  have listens: "\<forall>k<length (replicate 10 [97, 98 :: 8 word]).
      \<exists>r. listen_for decode binary64 (seed_id session_2500ms) (timeout session_2500ms)
        (if \<not> False then None else Some (replicate 10 [97, 98] ! k)) (receives (quick_reply k))
        = Some (Inr r)"
    using quick_reply_listen by (simp add: quick_reply_def session_2500ms_def)
  have i: "0 \<le> interval session_2500ms" by (simp add: session_2500ms_def)
  from run_stops_at_deadline [OF i sends listens, of empty_ResponseList 0]
  obtain sent rl where t:
    "run decode binary64 session_2500ms empty_ResponseList False (replicate 10 [97, 98]) 0 quick_reply
       = Some (Inr (sent, rl))"
    "\<forall>k. Suc k < length sent \<longrightarrow>
       \<not> deadline_reached binary64 session_2500ms (binary64 (clock (quick_reply k) - 0))"
    "length sent < length (replicate 10 [97, 98 :: 8 word]) \<longrightarrow>
       0 < length sent
       \<and> deadline_reached binary64 session_2500ms (binary64 (clock (quick_reply (length sent - 1)) - 0))"
    "(\<forall>x y. x \<le> y \<longrightarrow> binary64 x \<le> binary64 y) \<and> binary64 2 = 2 \<and> binary64 3 = 3
      \<and> overall_timeout session_2500ms = Some (5 / 2) \<and> interval session_2500ms = 1
      \<and> 0 \<le> clock (quick_reply 0)
      \<and> clock (quick_reply 0) + 1 \<le> clock (quick_reply 1)
      \<and> clock (quick_reply 1) + 1 \<le> clock (quick_reply 2) \<longrightarrow> length sent \<le> 3"
    by blast
  from t(4) have bound: "length sent \<le> 3"
    using binary64_mono binary64_keeps_2_3 quick_reply_clock by (simp add: session_2500ms_def)
  from t(1) r have sent: "sent = [(7, 1, [97, 98]), (7, 2, [97, 98]), (7, 3, [97, 98])]"
    by (simp add: requests_sent_def)
  from t(2) [rule_format, of 0] t(2) [rule_format, of 1] t(3) bound show ?thesis
    unfolding sent using r by (simp add: eval_nat_numeral)
qed

subsection \<open>Session identifiers\<close>

lemma allocate_Some:
  "allocate SEED_IDs draws = Some (s, ids) \<Longrightarrow>
   s \<in> set draws \<and> s \<notin> set SEED_IDs \<and> ids = SEED_IDs @ [s]"
  by (induction draws) (auto split: if_splits)

lemma allocate_range:
  "allocate SEED_IDs draws = Some (s, ids) \<Longrightarrow> \<forall>d\<in>set draws. 1 \<le> d \<and> d \<le> 65535 \<Longrightarrow>
   1 \<le> s \<and> s \<le> 65535"
  by (auto dest: allocate_Some)

lemma allocate_distinct:
  "allocate SEED_IDs draws = Some (s, ids) \<Longrightarrow> distinct SEED_IDs \<Longrightarrow> distinct ids"
  by (auto dest: allocate_Some)

lemma allocate_returns:
  "\<exists>d\<in>set draws. d \<notin> set SEED_IDs \<Longrightarrow> \<exists>s ids. allocate SEED_IDs draws = Some (s, ids)"
  by (induction draws) auto

lemma release_after_allocate:
  "allocate SEED_IDs draws = Some (s, ids) \<Longrightarrow>
   remove1 s ids = SEED_IDs \<and> s \<notin> set (remove1 s ids)"
  by (auto dest!: allocate_Some simp add: remove1_append)

text \<open>
  A \<^verbatim>\<open>ping\<close> that returns leaves \<^verbatim>\<open>SEED_IDs\<close> as it found it: the
  identifier was appended once and removed once. A \<^verbatim>\<open>ping\<close> that raises leaves
  the identifier in the list.
\<close>

lemma ping_returns_releases:
  "ping unpack rnd SEED_IDs draws socket_raises timeout' provider mp overall start env
     = Some (Inr rl, ids) \<Longrightarrow> ids = SEED_IDs"
  by (auto simp add: ping_def dest!: release_after_allocate split: option.splits sum.splits prod.splits)

lemma ping_raises_keeps:
  "ping unpack rnd SEED_IDs draws socket_raises timeout' provider mp overall start env
     = Some (Inl e, ids) \<Longrightarrow> \<exists>s. s \<notin> set SEED_IDs \<and> ids = SEED_IDs @ [s]"
  by (auto simp add: ping_def dest!: allocate_Some split: option.splits sum.splits prod.splits)

text \<open>
  Claim C3 at a failing input: the list is empty, \<^verbatim>\<open>randint\<close> returns 7, and the
  socket raises \<^verbatim>\<open>OSError\<close> when the first request is sent. The exception leaves
  \<^verbatim>\<open>ping\<close>, and 7 stays in \<^verbatim>\<open>SEED_IDs\<close>.
\<close>

theorem ping_send_fails_keeps_identifier:
  "ping decode exact [] [7] None 2 [[97, 98]] False None 0 send_fails
     = Some (Inl OSError, [7])"
  by code_simp

text \<open>The same when creating the socket raises.\<close>

lemma ping_socket_fails_keeps_identifier:
  "ping decode exact [] [7] (Some OSError) 2 [[97, 98]] False None 0 quick_reply
     = Some (Inl OSError, [7])"
  by code_simp

text \<open>
  A session that stops early at the overall timeout returns, and the identifier is
  removed: three of ten payloads are sent, and the list is again \<open>[3]\<close>.
\<close>

lemma ping_early_break_releases:
  "map_option snd
     (ping decode exact [3] [3, 7] None 2 (replicate 10 [97, 98]) True (Some (5 / 2)) 0 quick_reply)
     = Some [3]"
  by code_simp

subsection \<open>Sessions in several threads\<close>

text \<open>A thread that runs alone through the loop does what \<open>allocate\<close> does.\<close>

lemma thread_alone_fresh:
  "d \<notin> set SEED_IDs \<Longrightarrow>
   thread_step x (thread_step y (thread_step d (SEED_IDs, Drawing))) = (SEED_IDs @ [d], Session d)
   \<and> allocate SEED_IDs (d # draws) = Some (d, SEED_IDs @ [d])"
  by simp

lemma thread_alone_in_use:
  "d \<in> set SEED_IDs \<Longrightarrow>
   thread_step y (thread_step d (SEED_IDs, Drawing)) = (SEED_IDs, Drawing)
   \<and> allocate SEED_IDs (d # draws) = allocate SEED_IDs draws"
  by simp

text \<open>
  Claim C9 at a failing schedule: two threads call \<^verbatim>\<open>ping\<close>, \<^verbatim>\<open>randint\<close>
  returns 5 in both, and both run the test before either appends. Both sessions are then
  active with the identifier 5, which is twice in \<^verbatim>\<open>SEED_IDs\<close>.
\<close>

theorem interleaved_sessions_share_identifier:
  "interleave [(0, 5), (1, 5), (0, 0), (1, 0), (0, 0), (1, 0)] ([], [Drawing, Drawing])
     = ([5, 5], [Session 5, Session 5])"
  by code_simp

end
